theory Spec2Isabelle
  imports Main
begin

section \<open>Data model\<close>

text \<open>
  The persisted records of \<^verbatim>\<open>types.ts\<close> and the SQL schema. Addresses are strings, the
  code lower-cases every address before it reaches the store. Amounts are integers
  (minor units); on integers of magnitude below \<open>2^53\<close> the JavaScript operations
  \<open>+\<close>, \<open>-\<close>, \<open>Math.min\<close>, \<open>Math.max\<close> and the comparisons are exact, so they are the
  operations of \<open>int\<close> here. Points in time are milliseconds since the epoch.
  The serial ids and time stamps of the two audit tables are left out: no code reads them.
\<close>

type_synonym address = string

datatype debt_status = Active | Paid | Overdue | Defaulted

datatype payment_kind = Garnish | Manual | Full

text \<open>The three reason strings the code builds, each with the debt's id in it.\<close>

datatype reason = PaidOnTime nat | LatePayment nat | DefaultedOn nat

record user =
  wallet_address :: address
  ens_name :: "string option"
  credit_score :: int
  ens_stripped :: bool
  garnish_percentage :: "int option"
  auto_repay_enabled :: bool

record vouch =
  v_id :: nat
  voucher_address :: address
  v_borrower_address :: address
  limit_amount :: int
  current_usage :: int
  is_active :: bool

record debt =
  d_id :: nat
  borrower_address :: address
  lender_address :: address
  vouch_id :: "nat option"
  original_amount :: int
  amount_owed :: int
  due_date :: int
  repayment_days :: int
  status :: debt_status
  paid_at :: "int option"

record payment =
  debt_id :: nat
  amount :: int
  payment_type :: payment_kind

record credit_history_entry =
  h_wallet_address :: address
  old_score :: int
  new_score :: int
  h_reason :: reason

text \<open>Calls pushed to the status contracts (\<^verbatim>\<open>ContractService\<close>), in order.\<close>

datatype oracle_call =
  MarkDefaultOnChain address
| ClearDefaultOnChain address
| UpdateCreditScoreOnChain address int

text \<open>
  The store: the five tables, the two serial sequences whose values the code reads back
  (\<^verbatim>\<open>vouches.id\<close>, \<^verbatim>\<open>debts.id\<close>), and the log of contract calls.
\<close>

record store =
  users :: "user list"
  vouches :: "vouch list"
  debts :: "debt list"
  payments :: "payment list"
  credit_history :: "credit_history_entry list"
  vouch_seq :: nat
  debt_seq :: nat
  onchain :: "oracle_call list"

text \<open>The process environment: \<^verbatim>\<open>ContractService.isConfigured()\<close> and \<^verbatim>\<open>VAULT_ADDRESS\<close>.\<close>

record config =
  contracts_configured :: bool
  VAULT_ADDRESS :: "address option"

subsection \<open>Constants of \<^verbatim>\<open>CREDIT_SCORE\<close>\<close>

definition SCORE_MIN :: int where "SCORE_MIN = 300"
definition SCORE_MAX :: int where "SCORE_MAX = 900"
definition SCORE_DEFAULT :: int where "SCORE_DEFAULT = 650"
definition ENS_STRIP_THRESHOLD :: int where "ENS_STRIP_THRESHOLD = 400"
definition LATE_PAYMENT_PENALTY :: int where "LATE_PAYMENT_PENALTY = 25"
definition DEFAULT_PENALTY :: int where "DEFAULT_PENALTY = 50"
definition ON_TIME_BONUS :: int where "ON_TIME_BONUS = 10"

subsection \<open>Query helpers\<close>

text \<open>\<^verbatim>\<open>String.prototype.toLowerCase\<close> on the ASCII letters (addresses are hexadecimal).\<close>

definition lower_char :: "char \<Rightarrow> char" where
  "lower_char c =
     (let n = (of_char c :: nat)
      in if 65 \<le> n \<and> n \<le> 90 then char_of (n + 32) else c)"

definition toLowerCase :: "string \<Rightarrow> string" where
  "toLowerCase s = map lower_char s"

text \<open>
  \<^verbatim>\<open>.single()\<close>: the row when exactly one row matched, otherwise no data (and an error).
\<close>

fun single :: "'a list \<Rightarrow> 'a option" where
  "single [x] = Some x"
| "single _ = None"

definition select_user :: "store \<Rightarrow> address \<Rightarrow> user option" where
  "select_user s a = single (filter (\<lambda>u. wallet_address u = a) (users s))"

definition select_score :: "store \<Rightarrow> address \<Rightarrow> int option" where
  "select_score s a = map_option credit_score (select_user s a)"

definition update_user :: "address \<Rightarrow> (user \<Rightarrow> user) \<Rightarrow> store \<Rightarrow> store" where
  "update_user a f s =
     s\<lparr>users := map (\<lambda>u. if wallet_address u = a then f u else u) (users s)\<rparr>"

section \<open>Credit ledger (\<^verbatim>\<open>services.ts\<close>)\<close>

definition stripENS :: "config \<Rightarrow> store \<Rightarrow> address \<Rightarrow> store" where
  "stripENS cfg s walletAddress =
     (let address = toLowerCase walletAddress
      in case select_user s address of
           None \<Rightarrow> s
         | Some u \<Rightarrow>
             if \<not> ens_stripped u then
               (let s1 = update_user address (\<lambda>u. u\<lparr>ens_stripped := True\<rparr>) s
                in if contracts_configured cfg
                   then s1\<lparr>onchain := onchain s1 @ [MarkDefaultOnChain address]\<rparr>
                   else s1)
             else s)"

definition updateCreditScore ::
  "config \<Rightarrow> store \<Rightarrow> address \<Rightarrow> int \<Rightarrow> reason \<Rightarrow> int \<times> store" where
  "updateCreditScore cfg s walletAddress change rsn =
     (let address = toLowerCase walletAddress
      in case select_user s address of
           None \<Rightarrow> (SCORE_DEFAULT, s)
         | Some u \<Rightarrow>
             (let oldScore = credit_score u;
                  newScore = max SCORE_MIN (min SCORE_MAX (oldScore + change));
                  s1 = update_user address (\<lambda>u. u\<lparr>credit_score := newScore\<rparr>) s;
                  s2 = s1\<lparr>credit_history := credit_history s1 @
                         [\<lparr>h_wallet_address = address, old_score = oldScore,
                           new_score = newScore, h_reason = rsn\<rparr>]\<rparr>;
                  s3 = (if contracts_configured cfg
                        then s2\<lparr>onchain := onchain s2 @ [UpdateCreditScoreOnChain address newScore]\<rparr>
                        else s2);
                  s4 = (if newScore < ENS_STRIP_THRESHOLD then stripENS cfg s3 address else s3)
              in (newScore, s4)))"

text \<open>A sequence of score updates, each for any address, applied in order.\<close>

fun updateCreditScores :: "config \<Rightarrow> store \<Rightarrow> (address \<times> int \<times> reason) list \<Rightarrow> store" where
  "updateCreditScores cfg s [] = s"
| "updateCreditScores cfg s ((a, change, rsn) # ops) =
     updateCreditScores cfg (snd (updateCreditScore cfg s a change rsn)) ops"

definition scores_in_range :: "store \<Rightarrow> bool" where
  "scores_in_range s = list_all (\<lambda>u. SCORE_MIN \<le> credit_score u \<and> credit_score u \<le> SCORE_MAX) (users s)"

section \<open>JavaScript numbers in the garnish split\<close>

text \<open>
  The one place where the code leaves the integers is
  \<^verbatim>\<open>Math.floor(incoming * (garnishPercent / 100))\<close>: the quotient is an IEEE-754 double, and
  so is the product. A finite double is \<open>m * 2^e\<close> with a significand \<open>m\<close> of at most 53
  bits; it is the pair \<open>(m, e)\<close> here. Every operation rounds the exact result to the nearest
  such number, ties to the even significand. Overflow, subnormal numbers and division by
  zero do not arise: the divisor is the constant 100 and the amounts are far below
  \<open>2^1023\<close>.
\<close>

type_synonym double = "int \<times> int"

text \<open>The number of binary digits of a positive integer.\<close>

function bitlen :: "int \<Rightarrow> nat" where
  "bitlen n = (if n \<le> 0 then 0 else Suc (bitlen (n div 2)))"
  by pat_completeness auto
termination
  by (relation "measure nat") auto

text \<open>\<open>n / 2^k\<close> rounded to the nearest integer, ties to even.\<close>

definition round_shift :: "int \<Rightarrow> nat \<Rightarrow> int" where
  "round_shift n k =
     (let q = n div 2 ^ k; r = n mod 2 ^ k
      in if 2 * r > 2 ^ k \<or> (2 * r = 2 ^ k \<and> odd q) then q + 1 else q)"

definition round53 :: "double \<Rightarrow> double" where
  "round53 x =
     (case x of (m, e) \<Rightarrow>
        let k = bitlen \<bar>m\<bar> - 53 in (round_shift m k, e + int k))"

definition js_of_int :: "int \<Rightarrow> double" where
  "js_of_int n = round53 (n, 0)"

text \<open>
  Division: the quotient of the significands is taken with enough extra bits, and a last
  bit records whether anything was cut off, so that the rounding sees the exact value.
\<close>

definition js_div :: "double \<Rightarrow> double \<Rightarrow> double" where
  "js_div x y =
     (case (x, y) of ((m1, e1), (m2, e2)) \<Rightarrow>
        let k = 55 + bitlen \<bar>m2\<bar>;
            n = m1 * 2 ^ k * sgn m2;
            q = n div \<bar>m2\<bar>;
            sticky = (if n mod \<bar>m2\<bar> = 0 then 0 else 1)
        in round53 (2 * q + sticky, e1 - e2 - int k - 1))"

definition js_mul :: "double \<Rightarrow> double \<Rightarrow> double" where
  "js_mul x y = (case (x, y) of ((m1, e1), (m2, e2)) \<Rightarrow> round53 (m1 * m2, e1 + e2))"

definition js_floor :: "double \<Rightarrow> int" where
  "js_floor x = (case x of (m, e) \<Rightarrow> if 0 \<le> e then m * 2 ^ nat e else m div 2 ^ nat (- e))"

section \<open>Vouches and borrowing (\<^verbatim>\<open>services.ts\<close>)\<close>

definition getOrCreateUser :: "store \<Rightarrow> address \<Rightarrow> string option \<Rightarrow> user option \<times> store" where
  \<comment> \<open>\<open>ensName\<close> is what the ENS lookup gave (\<open>None\<close> when it is skipped).\<close>
  "getOrCreateUser s walletAddress ensName =
     (let address = toLowerCase walletAddress
      in case select_user s address of
           Some existingUser \<Rightarrow> (Some existingUser, s)
         | None \<Rightarrow>
             if address \<in> set (map wallet_address (users s)) then (None, s)
             else
               (let newUser = \<lparr>wallet_address = address, ens_name = ensName,
                                credit_score = SCORE_DEFAULT, ens_stripped = False,
                                garnish_percentage = Some 50, auto_repay_enabled = True\<rparr>
                in (Some newUser, s\<lparr>users := users s @ [newUser]\<rparr>)))"

definition select_vouch_pair :: "store \<Rightarrow> address \<Rightarrow> address \<Rightarrow> vouch option" where
  "select_vouch_pair s voucherAddr borrowerAddr =
     single (filter (\<lambda>v. voucher_address v = voucherAddr \<and> v_borrower_address v = borrowerAddr)
               (vouches s))"

definition select_vouch :: "store \<Rightarrow> nat \<Rightarrow> vouch option" where
  "select_vouch s vid = single (filter (\<lambda>v. v_id v = vid) (vouches s))"

definition update_vouch :: "nat \<Rightarrow> (vouch \<Rightarrow> vouch) \<Rightarrow> store \<Rightarrow> store" where
  "update_vouch vid f s = s\<lparr>vouches := map (\<lambda>v. if v_id v = vid then f v else v) (vouches s)\<rparr>"

text \<open>
  Amounts are whole numbers in this model. A column of type \<^verbatim>\<open>DECIMAL(18, 6)\<close> holds the
  values of magnitude below \<open>10^12\<close>; the store refuses a write of any other value (numeric
  field overflow).
\<close>

definition fits_decimal_18_6 :: "int \<Rightarrow> bool" where
  "fits_decimal_18_6 x = (\<bar>x\<bar> < 10 ^ 12)"


text \<open>At most one vouch row per (voucher, borrower) pair.\<close>

definition unique_pairs :: "store \<Rightarrow> bool" where
  "unique_pairs s = distinct (map (\<lambda>v. (voucher_address v, v_borrower_address v)) (vouches s))"

text \<open>
  The results of \<^verbatim>\<open>borrow\<close> other than success: its three error strings, and the
  \<^verbatim>\<open>RangeError\<close> ("Invalid time value") that \<^verbatim>\<open>toISOString\<close> throws.
\<close>

datatype borrow_error =
  NoVouchesAvailable | InsufficientCredit int int | FailedToCreateDebt | InvalidTimeValue

text \<open>
  A \<^verbatim>\<open>Date\<close> holds a time value of at most 8.64e15 ms in magnitude; \<^verbatim>\<open>setTime\<close> with any
  other value leaves an invalid date.
\<close>

definition valid_time_value :: "int \<Rightarrow> bool" where
  "valid_time_value t = (\<bar>t\<bar> \<le> 8640000000000000)"

text \<open>
  The rows of the vouches table, by its column types and CHECKs, for whole amounts. The
  code computes with doubles, which are exact on whole numbers up to \<open>2^53\<close>; limits and
  usages that add up to no more than that keep every sum and difference it forms exact.
\<close>

definition vouch_row_valid :: "vouch \<Rightarrow> bool" where
  "vouch_row_valid v =
     (0 < limit_amount v \<and> fits_decimal_18_6 (limit_amount v)
      \<and> 0 \<le> current_usage v \<and> fits_decimal_18_6 (current_usage v))"

definition exact_in_doubles :: "vouch list \<Rightarrow> bool" where
  "exact_in_doubles vs = ((\<Sum>v\<leftarrow>vs. limit_amount v + current_usage v) \<le> 2 ^ 53)"

text \<open>
  The active vouches of a borrower, largest limit first (the store's
  \<^verbatim>\<open>order('limit_amount', { ascending: false })\<close>; rows of equal limit keep their table order).
\<close>

definition borrower_vouches :: "store \<Rightarrow> address \<Rightarrow> vouch list" where
  "borrower_vouches s borrowerAddr =
     sort_key (\<lambda>v. - limit_amount v)
       (filter (\<lambda>v. v_borrower_address v = borrowerAddr \<and> is_active v) (vouches s))"

definition availableCredit :: "vouch list \<Rightarrow> int" where
  "availableCredit vs = foldl (\<lambda>sum v. sum + (limit_amount v - current_usage v)) 0 vs"

text \<open>
  The allocation loop of \<^verbatim>\<open>borrow\<close>: \<open>vs\<close> are the vouches still to visit, \<open>remainingAmount\<close>
  and \<open>debtsCreated\<close> the loop's variables. The loop reads the clock in every round; the
  model takes one reading for all of them, so \<open>dueDate\<close> and \<open>repaymentDaysInt\<close> are the same
  in every round. The result is \<open>None\<close> when \<^verbatim>\<open>dueDate.toISOString()\<close> throws, which it does
  while the row to insert is built, before anything is written in that round. The store
  is taken to accept every row the loop builds from valid rows.
\<close>

fun allocate ::
  "address \<Rightarrow> int \<Rightarrow> int \<Rightarrow> store \<Rightarrow> vouch list \<Rightarrow> int \<Rightarrow> debt list
     \<Rightarrow> debt list option \<times> store" where
  "allocate borrowerAddr dueDate repaymentDaysInt s [] remainingAmount debtsCreated =
     (Some debtsCreated, s)"
| "allocate borrowerAddr dueDate repaymentDaysInt s (vouch # vs) remainingAmount debtsCreated =
     (if remainingAmount \<le> 0 then (Some debtsCreated, s)
      else
        (let vouchAvailable = limit_amount vouch - current_usage vouch
         in if vouchAvailable \<le> 0
            then allocate borrowerAddr dueDate repaymentDaysInt s vs remainingAmount debtsCreated
            else if \<not> valid_time_value dueDate then (None, s)
            else
              (let borrowFromVouch = min remainingAmount vouchAvailable;
                   debt = \<lparr>d_id = debt_seq s, borrower_address = borrowerAddr,
                           lender_address = voucher_address vouch, vouch_id = Some (v_id vouch),
                           original_amount = borrowFromVouch, amount_owed = borrowFromVouch,
                           due_date = dueDate, repayment_days = repaymentDaysInt,
                           status = Active, paid_at = None\<rparr>;
                   s1 = s\<lparr>debts := debts s @ [debt], debt_seq := Suc (debt_seq s)\<rparr>;
                   s2 = update_vouch (v_id vouch)
                          (\<lambda>v. v\<lparr>current_usage := current_usage vouch + borrowFromVouch\<rparr>) s1
               in allocate borrowerAddr dueDate repaymentDaysInt s2 vs
                    (remainingAmount - borrowFromVouch) (debtsCreated @ [debt]))))"

text \<open>
  \<^verbatim>\<open>borrow\<close>, for whole amounts and a repayment period of whole days; \<open>now\<close> is the clock
  (\<^verbatim>\<open>new Date()\<close>). A thrown \<^verbatim>\<open>RangeError\<close> is the result \<open>InvalidTimeValue\<close>.
\<close>

definition borrow ::
  "store \<Rightarrow> address \<Rightarrow> int \<Rightarrow> int \<Rightarrow> int \<Rightarrow> (borrow_error + debt list) \<times> store" where
  "borrow s borrowerAddress amnt repaymentDays now =
     (let borrowerAddr = toLowerCase borrowerAddress;
          vs = borrower_vouches s borrowerAddr
      in if vs = [] then (Inl NoVouchesAvailable, s)
         else
           (let available = availableCredit vs
            in if amnt > available then (Inl (InsufficientCredit available amnt), s)
               else
                 (let dueDate = now + repaymentDays * 24 * 60 * 60 * 1000;
                      repaymentDaysInt = max 1 repaymentDays
                  in case allocate borrowerAddr dueDate repaymentDaysInt s vs amnt [] of
                       (None, s') \<Rightarrow> (Inl InvalidTimeValue, s')
                     | (Some debtsCreated, s') \<Rightarrow>
                         if debtsCreated = [] then (Inl FailedToCreateDebt, s')
                         else (Inr debtsCreated, s'))))"

text \<open>
  The allocation as the specification words it: draw from each vouch, in the given order,
  up to its remaining capacity until the principal is exhausted. The result lists the
  vouch drawn from and the amount, one entry per vouch touched.
\<close>

fun greedy_draw :: "int \<Rightarrow> vouch list \<Rightarrow> (nat \<times> int) list" where
  "greedy_draw R [] = []"
| "greedy_draw R (v # vs) =
     (if R \<le> 0 then []
      else if limit_amount v - current_usage v \<le> 0 then greedy_draw R vs
      else (v_id v, min R (limit_amount v - current_usage v))
             # greedy_draw (R - min R (limit_amount v - current_usage v)) vs)"

text \<open>The amount a list of draws takes from the vouch with a given id.\<close>

definition drawn :: "(nat \<times> int) list \<Rightarrow> nat \<Rightarrow> int" where
  "drawn draws vid = (case map_of draws vid of None \<Rightarrow> 0 | Some x \<Rightarrow> x)"

section \<open>Repayment, overdue sweep and default marking (\<^verbatim>\<open>services.ts\<close>)\<close>

definition update_debt :: "nat \<Rightarrow> (debt \<Rightarrow> debt) \<Rightarrow> store \<Rightarrow> store" where
  "update_debt did f s = s\<lparr>debts := map (\<lambda>d. if d_id d = did then f d else d) (debts s)\<rparr>"

text \<open>
  The block "Update vouch usage" that \<^verbatim>\<open>repayDebt\<close> and the transfer callback share word
  for word: a missing or zero \<^verbatim>\<open>vouch_id\<close> is falsy and skips it.
\<close>

definition release_vouch_usage :: "debt \<Rightarrow> store \<Rightarrow> store" where
  "release_vouch_usage debt s =
     (case vouch_id debt of
        None \<Rightarrow> s
      | Some vid \<Rightarrow>
          if vid = 0 then s
          else case select_vouch s vid of
                 None \<Rightarrow> s
               | Some vouch \<Rightarrow>
                   update_vouch vid
                     (\<lambda>v. v\<lparr>current_usage := max 0 (current_usage vouch - original_amount debt)\<rparr>) s)"

datatype repay_error = DebtNotFound | DebtAlreadyPaid

record repay_result =
  paid :: int
  remaining :: int
  fullyPaid :: bool

definition repayDebt ::
  "config \<Rightarrow> store \<Rightarrow> address \<Rightarrow> nat \<Rightarrow> int \<Rightarrow> int \<Rightarrow> (repay_error + repay_result) \<times> store" where
  "repayDebt cfg s borrowerAddress debtId amnt now =
     (let borrowerAddr = toLowerCase borrowerAddress
      in case single (filter (\<lambda>d. d_id d = debtId \<and> borrower_address d = borrowerAddr) (debts s)) of
           None \<Rightarrow> (Inl DebtNotFound, s)
         | Some debt \<Rightarrow>
             if status debt = Paid then (Inl DebtAlreadyPaid, s)
             else
               (let paymentAmount = min amnt (amount_owed debt);
                    newAmountOwed = amount_owed debt - paymentAmount;
                    s1 = (if fits_decimal_18_6 paymentAmount
                          then s\<lparr>payments := payments s @
                                 [\<lparr>debt_id = debtId, amount = paymentAmount,
                                   payment_type = (if newAmountOwed = 0 then Full else Manual)\<rparr>]\<rparr>
                          else s);
                    s2 = (if newAmountOwed = 0
                          then (let s1a = release_vouch_usage debt s1
                                in if due_date debt \<ge> now
                                   then snd (updateCreditScore cfg s1a borrowerAddr ON_TIME_BONUS
                                               (PaidOnTime debtId))
                                   else s1a)
                          else s1);
                    s3 = (if fits_decimal_18_6 newAmountOwed
                          then update_debt debtId
                                 (\<lambda>d. if newAmountOwed = 0
                                       then d\<lparr>amount_owed := newAmountOwed, status := Paid,
                                               paid_at := Some now\<rparr>
                                       else d\<lparr>amount_owed := newAmountOwed\<rparr>) s2
                          else s2)
                in (Inr \<lparr>paid = paymentAmount, remaining = newAmountOwed,
                          fullyPaid = (newAmountOwed = 0)\<rparr>, s3)))"

text \<open>The loop of \<^verbatim>\<open>checkOverdueDebts\<close> over the rows the query returned.\<close>

fun mark_overdue :: "config \<Rightarrow> store \<Rightarrow> debt list \<Rightarrow> nat \<Rightarrow> nat \<times> store" where
  "mark_overdue cfg s [] overdueCount = (overdueCount, s)"
| "mark_overdue cfg s (debt # ds) overdueCount =
     (let s1 = update_debt (d_id debt) (\<lambda>d. d\<lparr>status := Overdue\<rparr>) s;
          s2 = snd (updateCreditScore cfg s1 (borrower_address debt) (- LATE_PAYMENT_PENALTY)
                      (LatePayment (d_id debt)))
      in mark_overdue cfg s2 ds (Suc overdueCount))"

definition checkOverdueDebts :: "config \<Rightarrow> store \<Rightarrow> int \<Rightarrow> nat \<times> store" where
  "checkOverdueDebts cfg s now =
     (let overdueDebts = filter (\<lambda>d. status d = Active \<and> due_date d < now) (debts s)
      in if overdueDebts = [] then (0, s) else mark_overdue cfg s overdueDebts 0)"

definition markDebtDefaulted :: "config \<Rightarrow> store \<Rightarrow> nat \<Rightarrow> bool \<times> store" where
  "markDebtDefaulted cfg s debtId =
     (case single (filter (\<lambda>d. d_id d = debtId) (debts s)) of
        None \<Rightarrow> (False, s)
      | Some debt \<Rightarrow>
          if status debt = Defaulted \<or> status debt = Paid then (False, s)
          else
            (let s1 = update_debt debtId (\<lambda>d. d\<lparr>status := Defaulted\<rparr>) s
             in (True, snd (updateCreditScore cfg s1 (borrower_address debt) (- DEFAULT_PENALTY)
                              (DefaultedOn debtId)))))"

section \<open>The session client (\<^verbatim>\<open>BankClient\<close>)\<close>

text \<open>
  \<^verbatim>\<open>BankClient\<close> is driven by events: socket events, timers and calls. Every call of
  \<^verbatim>\<open>init()\<close> opens a socket of its own, arms a 30000 ms timer and returns a promise; the
  three are one \<open>connection\<close>, and the handlers that \<^verbatim>\<open>init()\<close> registers belong to
  that connection. The client's fields are shared by all of them. A promise settles once:
  \<^verbatim>\<open>resolve\<close> and \<^verbatim>\<open>reject\<close> on a settled promise do nothing. Time itself is not modelled: a
  timer is a pending event with its delay.
\<close>

datatype ready_state = CONNECTING | OPEN | CLOSING | CLOSED

datatype client_error =
  ConnectionTimeout | WebSocketError | WebSocketNotConnected | ClientNotAuthenticated

datatype promise = Pending | Resolved | Rejected client_error

record connection =
  readyState :: ready_state
  timeout_armed :: "nat option"
  init_promise :: promise
  awaited_by_reconnect :: bool

datatype outbound =
  AuthRequest | AuthVerifyReply | GetLedgerBalances | TransferMessage address int

datatype inbound =
  AuthChallenge | AuthVerify | LedgerBalances | TransferUpdate | RpcError | NoRes | Malformed

record bank_client =
  conns :: "connection list"
  ws :: "nat option"
  isAuthenticated :: bool
  reconnectAttempts :: nat
  maxReconnectAttempts :: nat
  reconnectDelay :: nat
  backoff_timers :: "nat list"
  outbox :: "outbound list"

definition new_BankClient :: bank_client where
  "new_BankClient = \<lparr>conns = [], ws = None, isAuthenticated = False, reconnectAttempts = 0,
                      maxReconnectAttempts = 5, reconnectDelay = 3000, backoff_timers = [],
                      outbox = []\<rparr>"

definition update_conn :: "nat \<Rightarrow> (connection \<Rightarrow> connection) \<Rightarrow> bank_client \<Rightarrow> bank_client" where
  "update_conn i f c = (if i < length (conns c) then c\<lparr>conns := (conns c)[i := f (conns c ! i)]\<rparr> else c)"

definition ws_open :: "bank_client \<Rightarrow> bool" where
  \<comment> \<open>\<^verbatim>\<open>this.ws && this.ws.readyState === WebSocket.OPEN\<close>\<close>
  "ws_open c = (case ws c of None \<Rightarrow> False
                | Some i \<Rightarrow> i < length (conns c) \<and> readyState (conns c ! i) = OPEN)"

definition isReady :: "bank_client \<Rightarrow> bool" where
  "isReady c = (isAuthenticated c \<and> ws_open c)"

text \<open>
  \<^verbatim>\<open>init()\<close>: the new socket becomes \<^verbatim>\<open>this.ws\<close>; the flag says whether
  \<^verbatim>\<open>attemptReconnect\<close> made the call and waits for the promise.
\<close>

definition init :: "bool \<Rightarrow> bank_client \<Rightarrow> bank_client" where
  "init from_reconnect c =
     c\<lparr>conns := conns c @ [\<lparr>readyState = CONNECTING, timeout_armed = Some 30000,
                              init_promise = Pending, awaited_by_reconnect = from_reconnect\<rparr>],
       ws := Some (length (conns c))\<rparr>"

text \<open>
  Settling the promise of connection \<open>i\<close>. When \<^verbatim>\<open>attemptReconnect\<close> awaits it, its
  continuation runs on fulfilment and resets the attempt counter.
\<close>

definition resolve :: "nat \<Rightarrow> bank_client \<Rightarrow> bank_client" where
  "resolve i c =
     (if i < length (conns c) \<and> init_promise (conns c ! i) = Pending
      then (let c1 = update_conn i (\<lambda>k. k\<lparr>init_promise := Resolved\<rparr>) c
            in if awaited_by_reconnect (conns c ! i) then c1\<lparr>reconnectAttempts := 0\<rparr> else c1)
      else c)"

definition reject :: "nat \<Rightarrow> client_error \<Rightarrow> bank_client \<Rightarrow> bank_client" where
  "reject i e c =
     (if i < length (conns c) \<and> init_promise (conns c ! i) = Pending
      then update_conn i (\<lambda>k. k\<lparr>init_promise := Rejected e\<rparr>) c
      else c)"

definition clearTimeout :: "nat \<Rightarrow> bank_client \<Rightarrow> bank_client" where
  "clearTimeout i c = update_conn i (\<lambda>k. k\<lparr>timeout_armed := None\<rparr>) c"

text \<open>
  \<^verbatim>\<open>this.ws.send\<close>; \<open>None\<close> is the exception. A null \<^verbatim>\<open>this.ws\<close> throws, and so does the
  socket while it is still connecting (\<^verbatim>\<open>WebSocket is not open: readyState 0\<close>). An open
  socket sends the message; one that is closing or closed drops it without throwing, as
  no callback is passed.
\<close>

definition ws_send :: "outbound \<Rightarrow> bank_client \<Rightarrow> bank_client option" where
  "ws_send m c =
     (case ws c of
        None \<Rightarrow> None
      | Some i \<Rightarrow>
          if i < length (conns c)
          then (case readyState (conns c ! i) of
                  CONNECTING \<Rightarrow> None
                | OPEN \<Rightarrow> Some (c\<lparr>outbox := outbox c @ [m]\<rparr>)
                | CLOSING \<Rightarrow> Some c
                | CLOSED \<Rightarrow> Some c)
          else None)"

definition startAuthFlow :: "bank_client \<Rightarrow> client_error + bank_client" where
  "startAuthFlow c =
     (if \<not> ws_open c then Inl WebSocketNotConnected
      else Inr (c\<lparr>outbox := outbox c @ [AuthRequest]\<rparr>))"

text \<open>
  \<^verbatim>\<open>handleMessage\<close>, by the type of the message; the result is \<open>None\<close> with the state
  reached when it throws. An incoming transfer is handed to the callback, which is
  \<open>onTransfer\<close> below.
\<close>

definition handleMessage :: "inbound \<Rightarrow> bank_client \<Rightarrow> bool \<times> bank_client" where
  "handleMessage m c =
     (case m of
        Malformed \<Rightarrow> (False, c)
      | RpcError \<Rightarrow> (True, c)
      | NoRes \<Rightarrow> (True, c)
      | AuthChallenge \<Rightarrow>
          (case ws_send AuthVerifyReply c of None \<Rightarrow> (False, c) | Some c' \<Rightarrow> (True, c'))
      | AuthVerify \<Rightarrow>
          (let c1 = c\<lparr>isAuthenticated := True\<rparr>
           in case ws_send GetLedgerBalances c1 of None \<Rightarrow> (False, c1) | Some c' \<Rightarrow> (True, c'))
      | LedgerBalances \<Rightarrow> (True, c)
      | TransferUpdate \<Rightarrow> (True, c))"

definition attemptReconnect :: "bank_client \<Rightarrow> bank_client" where
  "attemptReconnect c =
     (if reconnectAttempts c \<ge> maxReconnectAttempts c then c
      else
        (let c1 = c\<lparr>reconnectAttempts := reconnectAttempts c + 1\<rparr>;
             delay = reconnectDelay c1 * 2 ^ (reconnectAttempts c1 - 1)
         in c1\<lparr>backoff_timers := backoff_timers c1 @ [delay]\<rparr>))"

text \<open>
  \<^verbatim>\<open>disconnect()\<close>. \<^verbatim>\<open>ws.close()\<close> starts the closing handshake (the socket's close event
  follows later); on a socket that is closed already it does nothing.
\<close>

definition disconnect :: "bank_client \<Rightarrow> bank_client" where
  "disconnect c =
     (let c1 = c\<lparr>maxReconnectAttempts := 0\<rparr>;
          c2 = (case ws c1 of
                  None \<Rightarrow> c1
                | Some i \<Rightarrow>
                    (update_conn i
                       (\<lambda>k. if readyState k = CLOSED then k else k\<lparr>readyState := CLOSING\<rparr>) c1)
                      \<lparr>ws := None\<rparr>)
      in c2\<lparr>isAuthenticated := False\<rparr>)"

text \<open>
  The events. \<open>WsOpen i\<close>, \<open>WsMessage i m\<close>, \<open>WsError i\<close> and \<open>WsClose i\<close> are the events of
  the socket of connection \<open>i\<close>, handled by the handlers \<^verbatim>\<open>init()\<close> registered on it;
  \<open>InitTimeout i\<close> is its 30 s timer firing; \<open>BackoffElapsed j\<close> is the \<open>j\<close>-th waiting
  reconnect delay running out, after which \<^verbatim>\<open>attemptReconnect\<close> calls \<^verbatim>\<open>init()\<close>;
  \<open>CallDisconnect\<close> is a call of \<^verbatim>\<open>disconnect()\<close>.
\<close>

datatype event =
  WsOpen nat | WsMessage nat inbound | WsError nat | WsClose nat
| InitTimeout nat | BackoffElapsed nat | CallDisconnect

definition step :: "event \<Rightarrow> bank_client \<Rightarrow> bank_client" where
  "step ev c =
     (case ev of
        WsOpen i \<Rightarrow>
          (let c1 = update_conn i (\<lambda>k. k\<lparr>readyState := OPEN\<rparr>) c
           in case startAuthFlow c1 of
                Inr c2 \<Rightarrow> c2
              | Inl err \<Rightarrow> reject i err (clearTimeout i c1))
      | WsMessage i m \<Rightarrow>
          (let wasAuthenticated = isAuthenticated c
           in case handleMessage m c of
                (False, c1) \<Rightarrow> c1
              | (True, c1) \<Rightarrow>
                  if \<not> wasAuthenticated \<and> isAuthenticated c1
                  then resolve i (clearTimeout i c1) else c1)
      | WsError i \<Rightarrow> reject i WebSocketError (clearTimeout i c)
      | WsClose i \<Rightarrow>
          attemptReconnect
            ((update_conn i (\<lambda>k. k\<lparr>readyState := CLOSED\<rparr>) c)\<lparr>isAuthenticated := False\<rparr>)
      | InitTimeout i \<Rightarrow>
          (if i < length (conns c) \<and> timeout_armed (conns c ! i) \<noteq> None
           then reject i ConnectionTimeout (clearTimeout i c) else c)
      | BackoffElapsed j \<Rightarrow>
          (if j < length (backoff_timers c)
           then init True (c\<lparr>backoff_timers := take j (backoff_timers c) @ drop (Suc j) (backoff_timers c)\<rparr>)
           else c)
      | CallDisconnect \<Rightarrow> disconnect c)"

fun run :: "event list \<Rightarrow> bank_client \<Rightarrow> bank_client" where
  "run [] c = c"
| "run (ev # evs) c = run evs (step ev c)"

definition sendTransfer :: "address \<Rightarrow> int \<Rightarrow> bank_client \<Rightarrow> client_error + bank_client" where
  "sendTransfer recipient amnt c =
     (if \<not> isAuthenticated c then Inl ClientNotAuthenticated
      else if \<not> ws_open c then Inl WebSocketNotConnected
      else Inr (c\<lparr>outbox := outbox c @ [TransferMessage recipient amnt]\<rparr>))"

section \<open>The server: agents and the garnishment callback\<close>

text \<open>
  The first, synchronous part of \<^verbatim>\<open>POST /connect\<close>, up to the call of \<^verbatim>\<open>bank.init()\<close>.
  \<open>agents\<close> is \<^verbatim>\<open>activeAgents\<close>; \<open>userAddress\<close> is the lower-cased address derived from the key.
\<close>

datatype connect_step = AgentAlreadyRunning | FailedToCreateUser | Started bank_client

definition connect_start ::
  "(address \<rightharpoonup> bank_client) \<Rightarrow> store \<Rightarrow> address \<Rightarrow> string option \<Rightarrow> connect_step \<times> store" where
  "connect_start agents s userAddress ensName =
     (if (case agents userAddress of None \<Rightarrow> False | Some agent \<Rightarrow> isReady agent)
      then (AgentAlreadyRunning, s)
      else case getOrCreateUser s userAddress ensName of
             (None, s') \<Rightarrow> (FailedToCreateUser, s')
           | (Some u, s') \<Rightarrow> (Started (init False new_BankClient), s'))"

text \<open>
  The callback that \<^verbatim>\<open>POST /connect\<close> registers with \<^verbatim>\<open>bank.onTransfer\<close>. \<open>incoming\<close> is
  \<^verbatim>\<open>Number(transfer.amount)\<close>. The outcome records whether \<^verbatim>\<open>acceptTransfer\<close> accepted the
  transfer and, when the callback got as far as the split, the garnish amount and the
  remainder it computed.
\<close>

record transfer_outcome =
  accepted :: bool
  split :: "(int \<times> int) option"

definition acceptTransfer :: "bank_client \<Rightarrow> bool" where
  "acceptTransfer bank = True"

definition open_debts :: "store \<Rightarrow> address \<Rightarrow> debt list" where
  "open_debts s userAddress =
     sort_key due_date
       (filter (\<lambda>d. borrower_address d = userAddress \<and> (status d = Active \<or> status d = Overdue))
          (debts s))"

text \<open>
  The split of an incoming whole amount. The product is the code's, in doubles; a whole
  amount beyond \<open>2^53\<close> is first rounded to a double. The remainder is taken on the
  integers, which is what the code's subtraction of doubles gives for amounts up to \<open>2^53\<close>.
\<close>

definition garnish_split :: "int \<Rightarrow> int \<Rightarrow> int \<Rightarrow> int \<times> int" where
  \<comment> \<open>\<open>(garnishAmount, remainder)\<close> of the section "Calculate Split"\<close>
  "garnish_split incoming garnishPercent owed =
     (let garnishAmount =
            min (js_floor (js_mul (js_of_int incoming)
                             (js_div (js_of_int garnishPercent) (js_of_int 100))))
                owed;
          remainder = incoming - garnishAmount
      in (garnishAmount, remainder))"

text \<open>The branch "Debt fully paid" of the callback.\<close>

definition garnish_paid_off :: "config \<Rightarrow> address \<Rightarrow> int \<Rightarrow> debt \<Rightarrow> store \<Rightarrow> store" where
  "garnish_paid_off cfg userAddress now activeDebt s1 =
     (let s2 = update_debt (d_id activeDebt)
                 (\<lambda>d. d\<lparr>amount_owed := 0, status := Paid, paid_at := Some now\<rparr>) s1;
          s3 = release_vouch_usage activeDebt s2;
          s4 = (if due_date activeDebt \<ge> now
                then snd (updateCreditScore cfg s3 userAddress ON_TIME_BONUS
                            (PaidOnTime (d_id activeDebt)))
                else s3);
          remainingDebts =
            filter (\<lambda>d. borrower_address d = userAddress
                        \<and> (status d = Active \<or> status d = Overdue)
                        \<and> d_id d \<noteq> d_id activeDebt) (debts s4)
      in if remainingDebts = []
         then update_user userAddress (\<lambda>u. u\<lparr>ens_stripped := False\<rparr>)
                (if contracts_configured cfg
                 then s4\<lparr>onchain := onchain s4 @ [ClearDefaultOnChain userAddress]\<rparr>
                 else s4)
         else s4)"

text \<open>The block "Pay toward debt": the send, and what follows it inside the \<^verbatim>\<open>try\<close>.\<close>

definition pay_toward_debt ::
  "config \<Rightarrow> address \<Rightarrow> int \<Rightarrow> address \<Rightarrow> debt \<Rightarrow> int \<Rightarrow> bank_client \<Rightarrow> store
     \<Rightarrow> bank_client \<times> store" where
  "pay_toward_debt cfg userAddress now vault activeDebt garnishAmount bank s =
     (case sendTransfer vault garnishAmount bank of
        Inl transferError \<Rightarrow> (bank, s)
      | Inr bank' \<Rightarrow>
          (let s1 = s\<lparr>payments := payments s @
                      [\<lparr>debt_id = d_id activeDebt, amount = garnishAmount,
                        payment_type = Garnish\<rparr>]\<rparr>;
               newDebtAmount = max 0 (amount_owed activeDebt - garnishAmount)
           in if newDebtAmount = 0
              then (bank', garnish_paid_off cfg userAddress now activeDebt s1)
              else (bank', update_debt (d_id activeDebt)
                             (\<lambda>d. d\<lparr>amount_owed := newDebtAmount\<rparr>) s1)))"

definition onTransfer ::
  "config \<Rightarrow> address \<Rightarrow> int \<Rightarrow> int \<Rightarrow> bank_client \<Rightarrow> store
     \<Rightarrow> transfer_outcome \<times> bank_client \<times> store" where
  "onTransfer cfg userAddress now incoming bank s =
     (case select_user s userAddress of
        None \<Rightarrow> (\<lparr>accepted = acceptTransfer bank, split = None\<rparr>, bank, s)
      | Some currentUser \<Rightarrow>
          if \<not> auto_repay_enabled currentUser
          then (\<lparr>accepted = acceptTransfer bank, split = None\<rparr>, bank, s)
          else
            (case open_debts s userAddress of
               [] \<Rightarrow> (\<lparr>accepted = acceptTransfer bank, split = None\<rparr>, bank, s)
             | activeDebt # _ \<Rightarrow>
                 (let garnishPercent =
                        (case garnish_percentage currentUser of None \<Rightarrow> 50 | Some p \<Rightarrow> p);
                      (garnishAmount, remainder) =
                        garnish_split incoming garnishPercent (amount_owed activeDebt);
                      out = \<lparr>accepted = acceptTransfer bank,
                             split = Some (garnishAmount, remainder)\<rparr>
                  in case VAULT_ADDRESS cfg of
                       None \<Rightarrow> (out, bank, s)
                     | Some vault \<Rightarrow>
                         if garnishAmount > 0 \<and> vault \<noteq> []
                         then (out, pay_toward_debt cfg userAddress now vault activeDebt
                                      garnishAmount bank s)
                         else (out, bank, s))))"

section \<open>Observations on the store\<close>

definition select_debt :: "store \<Rightarrow> nat \<Rightarrow> debt option" where
  "select_debt s did = single (filter (\<lambda>d. d_id d = did) (debts s))"

definition debt_status :: "store \<Rightarrow> nat \<Rightarrow> debt_status option" where
  "debt_status s did = map_option status (select_debt s did)"

text \<open>How often the late-payment penalty was applied for a debt: its history entries.\<close>

definition late_penalties :: "store \<Rightarrow> nat \<Rightarrow> nat" where
  "late_penalties s did =
     length (filter (\<lambda>h. h_reason h = LatePayment did) (credit_history s))"

text \<open>The history entries themselves, oldest first.\<close>

definition late_payment_rows :: "store \<Rightarrow> nat \<Rightarrow> credit_history_entry list" where
  "late_payment_rows s did = filter (\<lambda>h. h_reason h = LatePayment did) (credit_history s)"



section \<open>The operations that move a debt's status\<close>

text \<open>
  Manual repayment, an incoming transfer (garnishment), the overdue sweep and default
  marking, each at a clock value; and, for each, the moves of a debt's status it can make.
  \<open>apply_operations\<close> runs the operations one after another: each has made all its reads
  and writes before the next one starts. The code takes no lock, so two calls can also
  overlap at their awaits; such runs are not runs of \<open>apply_operations\<close>.
\<close>

datatype operation =
  OpRepay address nat int
| OpTransfer address int bank_client
| OpSweep
| OpMarkDefaulted nat

definition apply_operation :: "config \<Rightarrow> int \<Rightarrow> operation \<Rightarrow> store \<Rightarrow> store" where
  "apply_operation cfg now op s =
     (case op of
        OpRepay a i amnt \<Rightarrow> snd (repayDebt cfg s a i amnt now)
      | OpTransfer a incoming bank \<Rightarrow> snd (snd (onTransfer cfg a now incoming bank s))
      | OpSweep \<Rightarrow> snd (checkOverdueDebts cfg s now)
      | OpMarkDefaulted i \<Rightarrow> snd (markDebtDefaulted cfg s i))"

fun apply_operations :: "config \<Rightarrow> (int \<times> operation) list \<Rightarrow> store \<Rightarrow> store" where
  "apply_operations cfg [] s = s"
| "apply_operations cfg ((now, op) # ops) s =
     apply_operations cfg ops (apply_operation cfg now op s)"

definition may_move :: "operation \<Rightarrow> debt_status \<Rightarrow> debt_status \<Rightarrow> bool" where
  "may_move op old new =
     (new = old \<or>
      (case op of
         OpRepay a i amnt \<Rightarrow> (old = Active \<or> old = Overdue \<or> old = Defaulted) \<and> new = Paid
       | OpTransfer a incoming bank \<Rightarrow> (old = Active \<or> old = Overdue) \<and> new = Paid
       | OpSweep \<Rightarrow> old = Active \<and> new = Overdue
       | OpMarkDefaulted i \<Rightarrow> (old = Active \<or> old = Overdue) \<and> new = Defaulted))"

definition is_repay :: "operation \<Rightarrow> bool" where
  "is_repay op = (case op of OpRepay a i amnt \<Rightarrow> True | _ \<Rightarrow> False)"

text \<open>
  A change of the debts table that rewrites its rows in place, every row along a move the
  operation may make.
\<close>

definition moves_by :: "operation \<Rightarrow> store \<Rightarrow> store \<Rightarrow> bool" where
  "moves_by op s s' =
     (\<exists>g. debts s' = map g (debts s) \<and> (\<forall>d. d_id (g d) = d_id d)
          \<and> (\<forall>d \<in> set (debts s). may_move op (status d) (status (g d))))"

section \<open>Borrowing and repaying\<close>





definition debt_owed :: "store \<Rightarrow> nat \<Rightarrow> int option" where
  "debt_owed s did = map_option amount_owed (select_debt s did)"





section \<open>Observations on the client\<close>

text \<open>
  From \<open>c\<close> to \<open>c'\<close> no connection was lost and no settled promise changed.
\<close>

definition settled_kept :: "bank_client \<Rightarrow> bank_client \<Rightarrow> bool" where
  "settled_kept c c' =
     (length (conns c) \<le> length (conns c')
      \<and> (\<forall>i < length (conns c).
            init_promise (conns c ! i) \<noteq> Pending
            \<longrightarrow> init_promise (conns c' ! i) = init_promise (conns c ! i)))"

section \<open>Example states\<close>

definition cfg0 :: config where
  "cfg0 = \<lparr>contracts_configured = True, VAULT_ADDRESS = Some ''0xvault''\<rparr>"

definition alice :: user where
  "alice = \<lparr>wallet_address = ''0xa1'', ens_name = None, credit_score = 310,
             ens_stripped = False, garnish_percentage = Some 50, auto_repay_enabled = True\<rparr>"

definition store_alice :: store where
  "store_alice = \<lparr>users = [alice], vouches = [], debts = [], payments = [],
                   credit_history = [], vouch_seq = 1, debt_seq = 1, onchain = []\<rparr>"

text \<open>
  A borrower with garnish percentage \<open>p\<close> and one debt of 1000 drawn on a vouch of 2000, of
  which \<open>owed\<close> is still owed; and a client that has gone through the handshake.
\<close>

definition borrower_with :: "int \<Rightarrow> user" where
  "borrower_with p = \<lparr>wallet_address = ''0xb0'', ens_name = None, credit_score = 650,
                       ens_stripped = False, garnish_percentage = Some p,
                       auto_repay_enabled = True\<rparr>"

definition lender :: user where
  "lender = \<lparr>wallet_address = ''0xc1'', ens_name = None, credit_score = 650,
              ens_stripped = False, garnish_percentage = Some 50, auto_repay_enabled = True\<rparr>"

definition debt_b0 :: "int \<Rightarrow> debt" where
  "debt_b0 owed =
     \<lparr>d_id = 1, borrower_address = ''0xb0'', lender_address = ''0xc1'', vouch_id = Some 1,
      original_amount = 1000, amount_owed = owed, due_date = 5000, repayment_days = 14,
      status = Active, paid_at = None\<rparr>"

definition store_garnish :: "int \<Rightarrow> int \<Rightarrow> store" where
  "store_garnish p owed =
     \<lparr>users = [borrower_with p, lender],
      vouches = [\<lparr>v_id = 1, voucher_address = ''0xc1'', v_borrower_address = ''0xb0'',
                  limit_amount = 2000, current_usage = 1000, is_active = True\<rparr>],
      debts = [debt_b0 owed],
      payments = [], credit_history = [], vouch_seq = 2, debt_seq = 2, onchain = []\<rparr>"

definition bank_ready :: bank_client where
  "bank_ready =
     \<lparr>conns = [\<lparr>readyState = OPEN, timeout_armed = None, init_promise = Resolved,
                awaited_by_reconnect = False\<rparr>],
      ws = Some 0, isAuthenticated = True, reconnectAttempts = 0, maxReconnectAttempts = 5,
      reconnectDelay = 3000, backoff_timers = [],
      outbox = [AuthRequest, AuthVerifyReply, GetLedgerBalances]\<rparr>"

definition bank_down :: bank_client where
  \<comment> \<open>the same client after its socket was closed: not authenticated\<close>
  "bank_down =
     \<lparr>conns = [\<lparr>readyState = CLOSED, timeout_armed = None, init_promise = Resolved,
                awaited_by_reconnect = False\<rparr>],
      ws = Some 0, isAuthenticated = False, reconnectAttempts = 1, maxReconnectAttempts = 5,
      reconnectDelay = 3000, backoff_timers = [3000],
      outbox = [AuthRequest, AuthVerifyReply, GetLedgerBalances]\<rparr>"



text \<open>The borrower's debt, 40 still owed, after it was marked as defaulted.\<close>

definition store_defaulted :: store where
  "store_defaulted = (store_garnish 50 40)\<lparr>debts := [(debt_b0 40)\<lparr>status := Defaulted\<rparr>]\<rparr>"

definition store_paid :: store where
  "store_paid =
     (store_garnish 50 0)\<lparr>debts := [(debt_b0 0)\<lparr>status := Paid, paid_at := Some 4000\<rparr>]\<rparr>"

text \<open>A client whose socket is open and which waits for the verification of its handshake.\<close>

definition bank_connecting :: bank_client where
  "bank_connecting =
     \<lparr>conns = [\<lparr>readyState = OPEN, timeout_armed = Some 30000, init_promise = Pending,
                awaited_by_reconnect = False\<rparr>],
      ws = Some 0, isAuthenticated = False, reconnectAttempts = 0, maxReconnectAttempts = 5,
      reconnectDelay = 3000, backoff_timers = [], outbox = [AuthRequest, AuthVerifyReply]\<rparr>"

text \<open>
  The borrower with two unused vouches, of 1000 and of 1500 (the specification's scenario),
  the smaller one first in the table.
\<close>

definition store_two_vouches :: store where
  "store_two_vouches =
     \<lparr>users = [borrower_with 50, lender,
               \<lparr>wallet_address = ''0xd2'', ens_name = None, credit_score = 650,
                 ens_stripped = False, garnish_percentage = Some 50,
                 auto_repay_enabled = True\<rparr>],
      vouches = [\<lparr>v_id = 1, voucher_address = ''0xc1'', v_borrower_address = ''0xb0'',
                  limit_amount = 1000, current_usage = 0, is_active = True\<rparr>,
                 \<lparr>v_id = 2, voucher_address = ''0xd2'', v_borrower_address = ''0xb0'',
                  limit_amount = 1500, current_usage = 0, is_active = True\<rparr>],
      debts = [], payments = [], credit_history = [], vouch_seq = 3, debt_seq = 1,
      onchain = []\<rparr>"



section \<open>Lemmas: addresses and row selection\<close>

lemma lower_char_idem: "lower_char (lower_char c) = lower_char c"
proof -
  define n where "n = (of_char c :: nat)"
  show ?thesis
  proof (cases "65 \<le> n \<and> n \<le> 90")
    case True
    then have "(n + 32) mod 256 = n + 32" by simp
    then have "(of_char (char_of (n + 32)) :: nat) = n + 32" by simp
    with True show ?thesis
      by (simp add: lower_char_def Let_def n_def)
  next
    case False
    then have "lower_char c = c"
      by (auto simp add: lower_char_def Let_def n_def)
    then show ?thesis by simp
  qed
qed

lemma toLowerCase_idem [simp]: "toLowerCase (toLowerCase a) = toLowerCase a"
  by (simp add: toLowerCase_def lower_char_idem)

lemma single_map: "single (map f xs) = map_option f (single xs)"
  by (cases xs rule: single.cases) auto

lemma single_SomeD: "single xs = Some x \<Longrightarrow> xs = [x]"
  by (cases xs rule: single.cases) auto

lemma filter_key_empty: "k \<notin> f ` set xs \<Longrightarrow> filter (\<lambda>x. f x = k) xs = []"
  by (induction xs) auto

lemma filter_key_distinct:
  "distinct (map f xs) \<Longrightarrow> v \<in> set xs \<Longrightarrow> filter (\<lambda>x. f x = f v) xs = [v]"
proof (induction xs)
  case Nil
  then show ?case by simp
next
  case (Cons x xs)
  show ?case
  proof (cases "x = v")
    case True
    have "f v \<notin> f ` set xs" using Cons.prems(1) True by simp
    then have "filter (\<lambda>x. f x = f v) xs = []" by (rule filter_key_empty)
    with True show ?thesis by simp
  next
    case False
    with Cons.prems have "v \<in> set xs" by simp
    moreover from this Cons.prems(1) have "f x \<noteq> f v" by auto
    ultimately show ?thesis using Cons by simp
  qed
qed

lemma filter_key_map_upd:
  assumes "\<And>x. f (g x) = f x"
  shows "filter (\<lambda>x. f x = j) (map (\<lambda>x. if f x = i then g x else x) xs)
       = map (\<lambda>x. if f x = i then g x else x) (filter (\<lambda>x. f x = j) xs)"
  using assms by (induction xs) auto

lemma select_user_update_user:
  assumes "\<And>u. wallet_address (f u) = wallet_address u"
  shows "select_user (update_user a f s) b =
         map_option (\<lambda>u. if wallet_address u = a then f u else u) (select_user s b)"
  using assms by (simp add: select_user_def update_user_def filter_key_map_upd single_map)

lemma select_user_wallet: "select_user s a = Some u \<Longrightarrow> wallet_address u = a"
proof -
  assume "select_user s a = Some u"
  then have "filter (\<lambda>u. wallet_address u = a) (users s) = [u]"
    unfolding select_user_def by (rule single_SomeD)
  then have "u \<in> set (filter (\<lambda>u. wallet_address u = a) (users s))" by simp
  then show ?thesis by simp
qed

section \<open>Lemmas: credit ledger\<close>

lemma select_score_other [simp]:
  "select_score (s\<lparr>credit_history := h\<rparr>) a = select_score s a"
  "select_score (s\<lparr>onchain := c\<rparr>) a = select_score s a"
  by (simp_all add: select_score_def select_user_def)

lemma select_score_update_flag:
  "select_score (update_user a (\<lambda>u. u\<lparr>ens_stripped := x\<rparr>) s) b = select_score s b"
  by (cases "select_user s b") (simp_all add: select_score_def select_user_update_user)

lemma stripENS_score: "select_score (stripENS cfg s a) b = select_score s b"
  by (simp add: stripENS_def Let_def select_score_update_flag split: option.splits)

lemma update_user_history [simp]: "credit_history (update_user a f s) = credit_history s"
  by (simp add: update_user_def)

lemma stripENS_history [simp]: "credit_history (stripENS cfg s a) = credit_history s"
  by (simp add: stripENS_def Let_def split: option.splits)

lemma scores_in_range_alt:
  "scores_in_range s =
     list_all (\<lambda>c. SCORE_MIN \<le> c \<and> c \<le> SCORE_MAX) (map credit_score (users s))"
  by (simp add: scores_in_range_def list_all_iff)

lemma stripENS_users_score:
  "map credit_score (users (stripENS cfg s a)) = map credit_score (users s)"
  by (simp add: stripENS_def Let_def update_user_def comp_def split: option.splits)

lemma stripENS_scores_in_range: "scores_in_range (stripENS cfg s a) = scores_in_range s"
  by (simp add: scores_in_range_alt stripENS_users_score)

lemma update_score_scores_in_range:
  assumes "scores_in_range s" "SCORE_MIN \<le> n" "n \<le> SCORE_MAX"
  shows "scores_in_range (update_user a (\<lambda>u. u\<lparr>credit_score := n\<rparr>) s)"
  using assms by (auto simp add: scores_in_range_def update_user_def list_all_iff)

lemma scores_in_range_other [simp]:
  "scores_in_range (s\<lparr>credit_history := h\<rparr>) = scores_in_range s"
  "scores_in_range (s\<lparr>onchain := c\<rparr>) = scores_in_range s"
  by (simp_all add: scores_in_range_def)

lemma updateCreditScore_scores_in_range:
  "scores_in_range s \<Longrightarrow> scores_in_range (snd (updateCreditScore cfg s a change r))"
  by (simp add: updateCreditScore_def Let_def stripENS_scores_in_range
        update_score_scores_in_range SCORE_MIN_def SCORE_MAX_def split: option.splits)

lemma updateCreditScores_scores_in_range:
  "scores_in_range s \<Longrightarrow> scores_in_range (updateCreditScores cfg s ops)"
  by (induction cfg s ops rule: updateCreditScores.induct)
     (auto simp: updateCreditScore_scores_in_range)

section \<open>Credit score stays within 300 and 900\<close>

text \<open>
  Claim C4. For an account that has a row, \<^verbatim>\<open>updateCreditScore\<close> returns and stores
  \<open>clamp(old + delta, 300, 900)\<close>, which lies in the range whatever the old score and the
  delta are, and appends the history entry with the old and the new score. Hence a store
  whose scores are all within 300 and 900 stays so under every sequence of updates, for
  any addresses and deltas.
\<close>

theorem updateCreditScore_clamped:
  assumes "select_user s (toLowerCase a) = Some u"
  shows "(let new = max 300 (min 900 (credit_score u + change));
              res = updateCreditScore cfg s a change r
          in fst res = new \<and> 300 \<le> new \<and> new \<le> 900
           \<and> select_score (snd res) (toLowerCase a) = Some new
           \<and> credit_history (snd res) = credit_history s @
                [\<lparr>h_wallet_address = toLowerCase a, old_score = credit_score u,
                  new_score = new, h_reason = r\<rparr>])
         \<and> (scores_in_range s \<longrightarrow> scores_in_range (updateCreditScores cfg s ops))"
proof -
  define new where "new = max 300 (min 900 (credit_score u + change))"
  define s1 where "s1 = update_user (toLowerCase a) (\<lambda>u. u\<lparr>credit_score := new\<rparr>) s"
  have w: "wallet_address u = toLowerCase a" using assms by (rule select_user_wallet)
  have sel1: "select_score s1 (toLowerCase a) = Some new"
    using assms w by (simp add: s1_def select_score_def select_user_update_user)
  have fst_eq: "fst (updateCreditScore cfg s a change r) = new"
    using assms by (simp add: updateCreditScore_def Let_def new_def SCORE_MIN_def SCORE_MAX_def)
  have sel: "select_score (snd (updateCreditScore cfg s a change r)) (toLowerCase a) = Some new"
    using assms sel1
    by (simp add: updateCreditScore_def Let_def stripENS_score new_def s1_def
          SCORE_MIN_def SCORE_MAX_def)
  have hist: "credit_history (snd (updateCreditScore cfg s a change r)) = credit_history s @
                [\<lparr>h_wallet_address = toLowerCase a, old_score = credit_score u,
                  new_score = new, h_reason = r\<rparr>]"
    using assms
    by (simp add: updateCreditScore_def Let_def new_def SCORE_MIN_def SCORE_MAX_def)
  have rng: "300 \<le> new \<and> new \<le> 900" by (simp add: new_def)
  show ?thesis
    using fst_eq sel hist rng
    by (simp add: Let_def new_def [symmetric] updateCreditScores_scores_in_range)
qed

theorem updateCreditScore_clamped_witness:
  "select_user store_alice (toLowerCase ''0xA1'') = Some alice
   \<and> fst (updateCreditScore cfg0 store_alice ''0xA1'' (- 25) (LatePayment 1)) = 300
   \<and> select_score (snd (updateCreditScore cfg0 store_alice ''0xA1'' (- 25) (LatePayment 1)))
        (toLowerCase ''0xA1'') = Some 300
   \<and> credit_history (snd (updateCreditScore cfg0 store_alice ''0xA1'' (- 25) (LatePayment 1)))
       = [\<lparr>h_wallet_address = ''0xa1'', old_score = 310, new_score = 300,
            h_reason = LatePayment 1\<rparr>]
   \<and> scores_in_range store_alice
   \<and> scores_in_range (updateCreditScores cfg0 store_alice
        [(''0xA1'', - 25, LatePayment 1), (''0xa1'', 700, PaidOnTime 2)])"
proof -
  have h: "select_user store_alice (toLowerCase ''0xA1'') = Some alice" by code_simp
  have r: "scores_in_range store_alice" by code_simp
  have l: "toLowerCase ''0xA1'' = ''0xa1''" by code_simp
  have c: "credit_score alice = 310" by (simp add: alice_def)
  have e: "credit_history store_alice = []" by (simp add: store_alice_def)
  show ?thesis
    using updateCreditScore_clamped [OF h, of "- 25" cfg0 "LatePayment 1"
        "[(''0xA1'', - 25, LatePayment 1), (''0xa1'', 700, PaidOnTime 2)]"] h r
    by (simp add: Let_def l c e)
qed

section \<open>The garnish split\<close>

text \<open>
  Claim C1 says that the garnished amount is \<open>min(floor(A * p / 100), amount_owed)\<close>. The
  code computes \<^verbatim>\<open>Math.floor(incoming * (garnishPercent / 100))\<close> in doubles: for an
  incoming transfer of 100 at 29 percent, against a debt owing 1000, the quotient
  \<open>29 / 100\<close> is rounded below 0.29, the product is 28.999999999999996 and its floor is 28,
  where \<open>floor(100 * 29 / 100) = 29\<close>. The callback sends 28 to the vault, reports a remainder
  of 72 and leaves 972 owed.
\<close>

theorem garnish_split_29_percent:
  "garnish_split 100 29 1000 = (28, 72)
   \<and> min (100 * 29 div 100) 1000 = (29 :: int)
   \<and> fst (onTransfer cfg0 ''0xb0'' 0 100 bank_ready (store_garnish 29 1000))
       = \<lparr>accepted = True, split = Some (28, 72)\<rparr>
   \<and> map amount_owed
         (debts (snd (snd (onTransfer cfg0 ''0xb0'' 0 100 bank_ready (store_garnish 29 1000)))))
       = [972]"
proof -
  have a: "garnish_split 100 29 1000 = (28, 72)" by code_simp
  have b: "fst (onTransfer cfg0 ''0xb0'' 0 100 bank_ready (store_garnish 29 1000))
       = \<lparr>accepted = True, split = Some (28, 72)\<rparr>" by code_simp
  have c: "map amount_owed
         (debts (snd (snd (onTransfer cfg0 ''0xb0'' 0 100 bank_ready (store_garnish 29 1000)))))
       = [972]" by code_simp
  show ?thesis using a b c by simp
qed

text \<open>
  The split never exceeds what is owed, and the remainder is the transfer less the garnish;
  the specification's scenario (100 at 50 percent against 40 owed) gives 40 and 60 and pays
  the debt off.
\<close>

lemma garnish_split_bounds:
  "fst (garnish_split incoming p owed) \<le> owed
   \<and> snd (garnish_split incoming p owed) = incoming - fst (garnish_split incoming p owed)"
  by (simp add: garnish_split_def Let_def)

lemma garnish_split_scenario:
  "garnish_split 100 50 40 = (40, 60)
   \<and> map (\<lambda>d. (amount_owed d, status d))
         (debts (snd (snd (onTransfer cfg0 ''0xb0'' 0 100 bank_ready (store_garnish 50 40)))))
       = [(0, Paid)]"
proof -
  have a: "garnish_split 100 50 40 = (40, 60)" by code_simp
  have b: "map (\<lambda>d. (amount_owed d, status d))
         (debts (snd (snd (onTransfer cfg0 ''0xb0'' 0 100 bank_ready (store_garnish 50 40)))))
       = [(0, Paid)]" by code_simp
  show ?thesis using a b by simp
qed

section \<open>A failed send leaves the store untouched\<close>

lemma sendTransfer_fails_iff: "(\<exists>e. sendTransfer v g bank = Inl e) \<longleftrightarrow> \<not> isReady bank"
  by (auto simp: sendTransfer_def isReady_def)

text \<open>
  Claim C9. If \<^verbatim>\<open>bank.sendTransfer\<close> throws, the callback's \<^verbatim>\<open>catch\<close> only logs: the
  store (payments, debts, vouches and all) and the client are as before, and the transfer
  was accepted, since \<^verbatim>\<open>acceptTransfer\<close> precedes the send.
\<close>

theorem garnish_send_failure:
  assumes "\<And>vault g. \<exists>e. sendTransfer vault g bank = Inl e"
  shows "snd (onTransfer cfg userAddress now incoming bank s) = (bank, s)
       \<and> accepted (fst (onTransfer cfg userAddress now incoming bank s))"
proof -
  have p: "pay_toward_debt cfg userAddress now vault d g bank s = (bank, s)" for vault d g
    using assms [of vault g] by (auto simp: pay_toward_debt_def)
  show ?thesis
    by (simp add: onTransfer_def Let_def p acceptTransfer_def
          split: option.splits list.splits prod.splits)
qed

theorem garnish_send_failure_witness:
  "(\<forall>vault g. \<exists>e. sendTransfer vault g bank_down = Inl e)
   \<and> VAULT_ADDRESS cfg0 = Some ''0xvault''
   \<and> split (fst (onTransfer cfg0 ''0xb0'' 0 100 bank_down (store_garnish 50 40))) = Some (40, 60)
   \<and> snd (onTransfer cfg0 ''0xb0'' 0 100 bank_down (store_garnish 50 40))
       = (bank_down, store_garnish 50 40)
   \<and> accepted (fst (onTransfer cfg0 ''0xb0'' 0 100 bank_down (store_garnish 50 40)))"
proof -
  have h: "\<exists>e. sendTransfer vault g bank_down = Inl e" for vault g
    by (simp add: sendTransfer_def bank_down_def)
  have v: "VAULT_ADDRESS cfg0 = Some ''0xvault''" by (simp add: cfg0_def)
  have sp: "split (fst (onTransfer cfg0 ''0xb0'' 0 100 bank_down (store_garnish 50 40)))
              = Some (40, 60)" by code_simp
  show ?thesis
    using garnish_send_failure [of bank_down cfg0 "''0xb0''" 0 100 "store_garnish 50 40", OF h]
      h v sp
    by simp
qed

section \<open>Vouching again for the same borrower\<close>

lemma getOrCreateUser_vouches [simp]:
  "vouches (snd (getOrCreateUser s a e)) = vouches s"
  "vouch_seq (snd (getOrCreateUser s a e)) = vouch_seq s"
  by (simp_all add: getOrCreateUser_def Let_def split: option.splits)

lemma select_vouch_pair_cong:
  "vouches s' = vouches s \<Longrightarrow> select_vouch_pair s' a b = select_vouch_pair s a b"
  by (simp add: select_vouch_pair_def)





lemma unique_pairs_cong: "vouches s' = vouches s \<Longrightarrow> unique_pairs s' = unique_pairs s"
  by (simp add: unique_pairs_def)





section \<open>The overdue sweep\<close>

lemma update_user_debts [simp]: "debts (update_user a f s) = debts s"
  by (simp add: update_user_def)

lemma stripENS_debts [simp]: "debts (stripENS cfg s a) = debts s"
  by (simp add: stripENS_def Let_def split: option.splits)

lemma updateCreditScore_debts [simp]: "debts (snd (updateCreditScore cfg s a c r)) = debts s"
  by (simp add: updateCreditScore_def Let_def split: option.splits)

lemma select_user_other [simp]:
  "select_user (s\<lparr>credit_history := h\<rparr>) a = select_user s a"
  "select_user (s\<lparr>onchain := c\<rparr>) a = select_user s a"
  "select_user (s\<lparr>debts := ds\<rparr>) a = select_user s a"
  by (simp_all add: select_user_def)




lemma select_user_update_debt [simp]: "select_user (update_debt i f s) a = select_user s a"
  by (simp add: update_debt_def)


lemma late_penalties_update_debt [simp]:
  "late_penalties (update_debt i f s) did = late_penalties s did"
  by (simp add: late_penalties_def update_debt_def)

lemma mark_overdue_debts:
  "debts (snd (mark_overdue cfg s ds n)) =
     map (\<lambda>d. if d_id d \<in> d_id ` set ds then d\<lparr>status := Overdue\<rparr> else d) (debts s)"
proof (induction ds arbitrary: s n)
  case Nil
  then show ?case by simp
next
  case (Cons x ds)
  show ?case
    by (simp add: Cons.IH Let_def update_debt_def)
qed




lemma select_debt_mem:
  "distinct (map d_id (debts s)) \<Longrightarrow> d \<in> set (debts s) \<Longrightarrow> select_debt s (d_id d) = Some d"
  by (simp add: select_debt_def filter_key_distinct)

lemma select_debt_map:
  assumes "\<And>x. d_id (g x) = d_id x"
  shows "select_debt (s\<lparr>debts := map g (debts s)\<rparr>) i = map_option g (select_debt s i)"
proof -
  have "filter (\<lambda>d. d_id d = i) (map g xs) = map g (filter (\<lambda>d. d_id d = i) xs)" for xs
    using assms by (induction xs) auto
  then show ?thesis by (simp add: select_debt_def single_map)
qed

lemma checkOverdueDebts_debts:
  "debts (snd (checkOverdueDebts cfg s now)) =
     map (\<lambda>d. if d_id d \<in> d_id ` {x \<in> set (debts s). status x = Active \<and> due_date x < now}
               then d\<lparr>status := Overdue\<rparr> else d) (debts s)"
proof (cases "filter (\<lambda>d. status d = Active \<and> due_date d < now) (debts s) = []")
  case True
  then have e: "{x \<in> set (debts s). status x = Active \<and> due_date x < now} = {}"
    by (auto simp: filter_empty_conv)
  have "debts (snd (checkOverdueDebts cfg s now)) = debts s"
    by (simp add: checkOverdueDebts_def Let_def True)
  then show ?thesis unfolding e by simp
next
  case False
  have "set (filter (\<lambda>d. status d = Active \<and> due_date d < now) (debts s))
          = {x \<in> set (debts s). status x = Active \<and> due_date x < now}" by auto
  with False show ?thesis
    by (simp add: checkOverdueDebts_def Let_def mark_overdue_debts)
qed

lemma checkOverdueDebts_ids [simp]:
  "map d_id (debts (snd (checkOverdueDebts cfg s now))) = map d_id (debts s)"
  by (simp add: checkOverdueDebts_debts comp_def if_distrib cong: if_cong)



lemma select_score_update_debt [simp]: "select_score (update_debt i f s) a = select_score s a"
  by (simp add: select_score_def)


lemma late_payment_rows_update_debt [simp]:
  "late_payment_rows (update_debt i f s) did = late_payment_rows s did"
  by (simp add: late_payment_rows_def update_debt_def)


lemma late_penalties_rows: "late_penalties s did = length (late_payment_rows s did)"
  by (simp add: late_penalties_def late_payment_rows_def)















section \<open>The debt state machine\<close>

lemma update_vouch_debts [simp]: "debts (update_vouch i f s) = debts s"
  by (simp add: update_vouch_def)

lemma release_vouch_usage_debts [simp]: "debts (release_vouch_usage d s) = debts s"
  by (simp add: release_vouch_usage_def split: option.splits)

lemma moves_by_refl: "debts s' = debts s \<Longrightarrow> moves_by op s s'"
  unfolding moves_by_def by (rule exI [of _ id]) (simp add: may_move_def)

lemma moves_by_update:
  assumes "distinct (map d_id (debts s))" "debts s' = debts (update_debt i f s)"
      and "x \<in> set (debts s)" "d_id x = i" "\<And>d. d_id (f d) = d_id d"
      and "may_move op (status x) (status (f x))"
  shows "moves_by op s s'"
  unfolding moves_by_def
proof (rule exI [of _ "\<lambda>d. if d_id d = i then f d else d"], intro conjI allI ballI)
  show "debts s' = map (\<lambda>d. if d_id d = i then f d else d) (debts s)"
    using assms(2) by (simp add: update_debt_def)
  show "d_id (if d_id d = i then f d else d) = d_id d" for d
    using assms(5) by simp
  fix d assume d: "d \<in> set (debts s)"
  show "may_move op (status d) (status (if d_id d = i then f d else d))"
  proof (cases "d_id d = i")
    case True
    with d assms(1,3,4) have "d = x" by (metis distinct_map inj_on_def)
    with True assms(4,6) show ?thesis by simp
  next
    case False
    then show ?thesis by (simp add: may_move_def)
  qed
qed

lemma single_filter_mem: "single (filter P xs) = Some x \<Longrightarrow> x \<in> set xs \<and> P x"
proof -
  assume "single (filter P xs) = Some x"
  then have "filter P xs = [x]" by (rule single_SomeD)
  then have "x \<in> set (filter P xs)" by simp
  then show ?thesis by simp
qed

lemma repayDebt_moves:
  assumes "distinct (map d_id (debts s))"
  shows "moves_by (OpRepay a i amnt) s (snd (repayDebt cfg s a i amnt now))"
proof (cases "single (filter (\<lambda>d. d_id d = i \<and> borrower_address d = toLowerCase a) (debts s))")
  case None
  then show ?thesis by (simp add: repayDebt_def moves_by_refl)
next
  case (Some debt)
  then have mem: "debt \<in> set (debts s)" "d_id debt = i"
    using single_filter_mem [OF Some] by simp_all
  show ?thesis
  proof (cases "status debt = Paid")
    case True
    with Some show ?thesis by (simp add: repayDebt_def moves_by_refl)
  next
    case False
    let ?new = "amount_owed debt - min amnt (amount_owed debt)"
    let ?f = "\<lambda>d. if ?new = 0 then d\<lparr>amount_owed := ?new, status := Paid, paid_at := Some now\<rparr>
                    else d\<lparr>amount_owed := ?new\<rparr>"
    show ?thesis
    proof (cases "fits_decimal_18_6 ?new")
      case fits: True
      have "debts (snd (repayDebt cfg s a i amnt now)) = debts (update_debt i ?f s)"
        using Some False fits by (simp add: repayDebt_def Let_def update_debt_def)
      moreover have "may_move (OpRepay a i amnt) (status debt) (status (?f debt))"
        using False by (cases "status debt") (simp_all add: may_move_def)
      ultimately show ?thesis
        using assms mem by (intro moves_by_update [where x = debt and f = ?f and i = i]) simp_all
    next
      case refused: False
      then have "?new \<noteq> 0" by (auto simp: fits_decimal_18_6_def)
      then have "debts (snd (repayDebt cfg s a i amnt now)) = debts s"
        using Some False refused by (simp add: repayDebt_def Let_def)
      then show ?thesis by (rule moves_by_refl)
    qed
  qed
qed


lemma markDebtDefaulted_moves:
  assumes "distinct (map d_id (debts s))"
  shows "moves_by (OpMarkDefaulted i) s (snd (markDebtDefaulted cfg s i))"
proof (cases "single (filter (\<lambda>d. d_id d = i) (debts s))")
  case None
  then show ?thesis by (simp add: markDebtDefaulted_def moves_by_refl)
next
  case (Some debt)
  then have mem: "debt \<in> set (debts s)" "d_id debt = i"
    using single_filter_mem [OF Some] by simp_all
  show ?thesis
  proof (cases "status debt = Defaulted \<or> status debt = Paid")
    case True
    with Some show ?thesis by (simp add: markDebtDefaulted_def moves_by_refl)
  next
    case False
    have "debts (snd (markDebtDefaulted cfg s i))
            = debts (update_debt i (\<lambda>d. d\<lparr>status := Defaulted\<rparr>) s)"
      using Some False by (simp add: markDebtDefaulted_def Let_def)
    moreover have "may_move (OpMarkDefaulted i) (status debt)
                     (status (debt\<lparr>status := Defaulted\<rparr>))"
      using False by (cases "status debt") (simp_all add: may_move_def)
    ultimately show ?thesis
      using assms mem
      by (intro moves_by_update [where x = debt and f = "\<lambda>d. d\<lparr>status := Defaulted\<rparr>" and i = i])
         simp_all
  qed
qed

lemma checkOverdueDebts_moves:
  assumes "distinct (map d_id (debts s))"
  shows "moves_by OpSweep s (snd (checkOverdueDebts cfg s now))"
  unfolding moves_by_def
proof (rule exI [of _ "\<lambda>d. if d_id d \<in> d_id ` {x \<in> set (debts s). status x = Active \<and> due_date x < now}
               then d\<lparr>status := Overdue\<rparr> else d"], intro conjI allI ballI)
  show "debts (snd (checkOverdueDebts cfg s now)) =
    map (\<lambda>d. if d_id d \<in> d_id ` {x \<in> set (debts s). status x = Active \<and> due_date x < now}
              then d\<lparr>status := Overdue\<rparr> else d) (debts s)"
    by (rule checkOverdueDebts_debts)
  show "d_id (if d_id d \<in> d_id ` {x \<in> set (debts s). status x = Active \<and> due_date x < now}
              then d\<lparr>status := Overdue\<rparr> else d) = d_id d" for d
    by simp
  fix d assume d: "d \<in> set (debts s)"
  show "may_move OpSweep (status d)
          (status (if d_id d \<in> d_id ` {x \<in> set (debts s). status x = Active \<and> due_date x < now}
                   then d\<lparr>status := Overdue\<rparr> else d))"
  proof (cases "d_id d \<in> d_id ` {x \<in> set (debts s). status x = Active \<and> due_date x < now}")
    case True
    then obtain x where x: "x \<in> set (debts s)" "status x = Active" "d_id x = d_id d" by auto
    with d assms have "x = d" by (metis distinct_map inj_on_def)
    with x True show ?thesis by (simp add: may_move_def)
  next
    case False
    then show ?thesis by (simp add: may_move_def)
  qed
qed

lemma open_debts_mem:
  "open_debts s a = x # xs \<Longrightarrow> x \<in> set (debts s) \<and> (status x = Active \<or> status x = Overdue)"
proof -
  assume "open_debts s a = x # xs"
  then have "x \<in> set (open_debts s a)" by simp
  then show ?thesis by (auto simp: open_debts_def)
qed

lemma garnish_paid_off_debts:
  "debts (garnish_paid_off cfg a now d s)
     = debts (update_debt (d_id d) (\<lambda>d. d\<lparr>amount_owed := 0, status := Paid, paid_at := Some now\<rparr>) s)"
  by (simp add: garnish_paid_off_def Let_def)

lemma pay_toward_debt_debts:
  "debts (snd (pay_toward_debt cfg a now vault x g bank s)) =
     (case sendTransfer vault g bank of
        Inl e \<Rightarrow> debts s
      | Inr bank' \<Rightarrow>
          debts (update_debt (d_id x)
                   (\<lambda>d. if max 0 (amount_owed x - g) = 0
                         then d\<lparr>amount_owed := 0, status := Paid, paid_at := Some now\<rparr>
                         else d\<lparr>amount_owed := max 0 (amount_owed x - g)\<rparr>) s))"
proof (cases "sendTransfer vault g bank")
  case (Inl e)
  then show ?thesis by (simp add: pay_toward_debt_def)
next
  case (Inr bank')
  show ?thesis
  proof (cases "max 0 (amount_owed x - g) = 0")
    case True
    have "snd (pay_toward_debt cfg a now vault x g bank s)
        = garnish_paid_off cfg a now x
            (s\<lparr>payments := payments s @
                [\<lparr>debt_id = d_id x, amount = g, payment_type = Garnish\<rparr>]\<rparr>)"
      unfolding pay_toward_debt_def Let_def using Inr True by (simp only: sum.case if_True snd_conv simp_thms)
    then show ?thesis
      using Inr True by (simp only: garnish_paid_off_debts sum.case if_True simp_thms) (simp add: update_debt_def)
  next
    case False
    have "snd (pay_toward_debt cfg a now vault x g bank s)
        = update_debt (d_id x) (\<lambda>d. d\<lparr>amount_owed := max 0 (amount_owed x - g)\<rparr>)
            (s\<lparr>payments := payments s @
                [\<lparr>debt_id = d_id x, amount = g, payment_type = Garnish\<rparr>]\<rparr>)"
      unfolding pay_toward_debt_def Let_def using Inr False by (simp only: sum.case if_False snd_conv simp_thms)
    then show ?thesis
      using Inr False by (simp only: sum.case if_False simp_thms) (simp add: update_debt_def)
  qed
qed

lemma pay_toward_debt_moves:
  assumes "distinct (map d_id (debts s))" "x \<in> set (debts s)" "status x = Active \<or> status x = Overdue"
  shows "moves_by (OpTransfer a incoming bank0) s (snd (pay_toward_debt cfg a now vault x g bank s))"
proof (cases "sendTransfer vault g bank")
  case (Inl e)
  then show ?thesis by (simp add: pay_toward_debt_debts moves_by_refl)
next
  case (Inr bank')
  let ?f = "\<lambda>d. if max 0 (amount_owed x - g) = 0
                 then d\<lparr>amount_owed := 0, status := Paid, paid_at := Some now\<rparr>
                 else d\<lparr>amount_owed := max 0 (amount_owed x - g)\<rparr>"
  have 1: "debts (snd (pay_toward_debt cfg a now vault x g bank s)) = debts (update_debt (d_id x) ?f s)"
    using Inr by (simp only: pay_toward_debt_debts sum.case)
  have 2: "may_move (OpTransfer a incoming bank0) (status x) (status (?f x))"
    using assms(3) by (cases "max 0 (amount_owed x - g) = 0") (auto simp: may_move_def)
  have 3: "d_id (?f d) = d_id d" for d
    by (cases "max 0 (amount_owed x - g) = 0") simp_all
  show ?thesis
    using assms(1) 1 assms(2) refl 3 2 by (rule moves_by_update)
qed

lemma onTransfer_moves:
  assumes "distinct (map d_id (debts s))"
  shows "moves_by (OpTransfer a incoming bank) s (snd (snd (onTransfer cfg a now incoming bank s)))"
proof (cases "open_debts s a")
  case Nil
  then show ?thesis
    by (simp add: onTransfer_def moves_by_refl split: option.splits)
next
  case (Cons x xs)
  note m = open_debts_mem [OF Cons]
  have p: "moves_by (OpTransfer a incoming bank) s (snd (pay_toward_debt cfg a now vault x g bank s))"
    for vault g
    using assms m by (intro pay_toward_debt_moves) simp_all
  show ?thesis
    using Cons p
    by (simp add: onTransfer_def Let_def moves_by_refl split: option.splits prod.splits)
qed

lemma apply_operation_moves:
  "distinct (map d_id (debts s)) \<Longrightarrow> moves_by op s (apply_operation cfg now op s)"
  by (cases op)
     (simp_all add: apply_operation_def repayDebt_moves onTransfer_moves
        checkOverdueDebts_moves markDebtDefaulted_moves)

lemma moves_by_ids: "moves_by op s s' \<Longrightarrow> map d_id (debts s') = map d_id (debts s)"
  by (auto simp: moves_by_def)

lemma moves_by_status:
  assumes "moves_by op s s'" "distinct (map d_id (debts s))" "d \<in> set (debts s)"
  shows "\<exists>d'. d' \<in> set (debts s') \<and> d_id d' = d_id d \<and> select_debt s' (d_id d) = Some d'
             \<and> may_move op (status d) (status d')"
proof -
  obtain g where g: "debts s' = map g (debts s)" "\<And>d. d_id (g d) = d_id d"
      "\<And>d. d \<in> set (debts s) \<Longrightarrow> may_move op (status d) (status (g d))"
    using assms(1) by (auto simp: moves_by_def)
  have "select_debt s' (d_id d) = select_debt (s\<lparr>debts := map g (debts s)\<rparr>) (d_id d)"
    by (simp add: select_debt_def g(1))
  also have "\<dots> = map_option g (select_debt s (d_id d))"
    by (rule select_debt_map) (rule g(2))
  also have "\<dots> = Some (g d)"
    using select_debt_mem [OF assms(2,3)] by simp
  finally have "select_debt s' (d_id d) = Some (g d)" .
  moreover have "g d \<in> set (debts s')" using assms(3) by (simp add: g(1))
  ultimately show ?thesis using g(2,3) assms(3) by blast
qed


lemma apply_operations_closed:
  assumes "\<And>t op old new. (t, op) \<in> set ops \<Longrightarrow> old \<in> S \<Longrightarrow> may_move op old new \<Longrightarrow> new \<in> S"
      and "distinct (map d_id (debts s))" and "d \<in> set (debts s)" and "status d \<in> S"
  shows "\<exists>new. debt_status (apply_operations cfg ops s) (d_id d) = Some new \<and> new \<in> S"
  using assms
proof (induction ops arbitrary: s d)
  case Nil
  then show ?case by (simp add: debt_status_def select_debt_mem)
next
  case (Cons x ops)
  obtain t op where x: "x = (t, op)" by (cases x)
  let ?s1 = "apply_operation cfg t op s"
  have mv: "moves_by op s ?s1" using Cons.prems(2) by (rule apply_operation_moves)
  obtain d' where d': "d' \<in> set (debts ?s1)" "d_id d' = d_id d"
      "may_move op (status d) (status d')"
    using moves_by_status [OF mv Cons.prems(2,3)] by blast
  have S: "status d' \<in> S"
    using Cons.prems(1) [of t op "status d" "status d'"] Cons.prems(4) d'(3) x by simp
  have dist: "distinct (map d_id (debts ?s1))"
    using moves_by_ids [OF mv] Cons.prems(2) by simp
  have "\<exists>new. debt_status (apply_operations cfg ops ?s1) (d_id d') = Some new \<and> new \<in> S"
    using Cons.prems(1) dist d'(1) S by (intro Cons.IH) auto
  then show ?case by (simp add: x d'(2))
qed

text \<open>
  Claim C5 says that \<open>defaulted\<close> is terminal under manual repayment, garnishment, the
  overdue sweep and default marking, and that a debt becomes \<open>defaulted\<close> from \<open>overdue\<close>.
  \<^verbatim>\<open>repayDebt\<close> refuses only a debt that is \<open>paid\<close>: a defaulted debt that is repaid in full
  becomes \<open>paid\<close>. And \<^verbatim>\<open>markDebtDefaulted\<close> refuses only debts that are \<open>defaulted\<close> or
  \<open>paid\<close>: an active debt becomes \<open>defaulted\<close> without having been \<open>overdue\<close>.
\<close>

theorem defaulted_debt_repaid_active_debt_defaulted:
  "debt_status store_defaulted 1 = Some Defaulted
   \<and> debt_status (snd (repayDebt cfg0 store_defaulted ''0xb0'' 1 40 6000)) 1 = Some Paid
   \<and> debt_status (store_garnish 50 40) 1 = Some Active
   \<and> fst (markDebtDefaulted cfg0 (store_garnish 50 40) 1)
   \<and> debt_status (snd (markDebtDefaulted cfg0 (store_garnish 50 40) 1)) 1 = Some Defaulted"
  by code_simp

text \<open>
  Claim C5 as amended, for operations that run one after another. Every one of the four
  operations rewrites the rows of the debts
  table in place, and moves a debt's status only as \<open>may_move\<close> lists: repayment from
  \<open>active\<close>, \<open>overdue\<close> or \<open>defaulted\<close> to \<open>paid\<close>; garnishment from \<open>active\<close> or \<open>overdue\<close> to
  \<open>paid\<close>; the sweep from \<open>active\<close> to \<open>overdue\<close>; default marking from \<open>active\<close> or \<open>overdue\<close>
  to \<open>defaulted\<close>. Hence \<open>paid\<close> is terminal under every sequence of operations; a
  \<open>defaulted\<close> debt can only stay or become \<open>paid\<close>, and it stays \<open>defaulted\<close> under every
  sequence without a manual repayment. The premise is the primary key of the table.
\<close>

theorem status_moves:
  assumes "distinct (map d_id (debts s))" and "d \<in> set (debts s)"
  shows "(\<exists>new. debt_status (apply_operation cfg now op s) (d_id d) = Some new
               \<and> may_move op (status d) new)
       \<and> (status d = Paid \<longrightarrow> debt_status (apply_operations cfg ops s) (d_id d) = Some Paid)
       \<and> (status d = Defaulted \<longrightarrow>
            debt_status (apply_operations cfg ops s) (d_id d) = Some Defaulted
            \<or> debt_status (apply_operations cfg ops s) (d_id d) = Some Paid)
       \<and> (status d = Defaulted \<and> list_all (\<lambda>(t, op). \<not> is_repay op) ops \<longrightarrow>
            debt_status (apply_operations cfg ops s) (d_id d) = Some Defaulted)"
proof (intro conjI impI)
  have mv: "moves_by op s (apply_operation cfg now op s)"
    using assms(1) by (rule apply_operation_moves)
  show "\<exists>new. debt_status (apply_operation cfg now op s) (d_id d) = Some new
               \<and> may_move op (status d) new"
    using moves_by_status [OF mv assms] by (auto simp: debt_status_def)
next
  assume p: "status d = Paid"
  have "\<exists>new. debt_status (apply_operations cfg ops s) (d_id d) = Some new \<and> new \<in> {Paid}"
    using assms p by (intro apply_operations_closed) (auto simp: may_move_def split: operation.splits)
  then show "debt_status (apply_operations cfg ops s) (d_id d) = Some Paid" by simp
next
  assume p: "status d = Defaulted"
  have "\<exists>new. debt_status (apply_operations cfg ops s) (d_id d) = Some new \<and> new \<in> {Defaulted, Paid}"
    using assms p by (intro apply_operations_closed) (auto simp: may_move_def split: operation.splits)
  then show "debt_status (apply_operations cfg ops s) (d_id d) = Some Defaulted
            \<or> debt_status (apply_operations cfg ops s) (d_id d) = Some Paid" by auto
next
  assume p: "status d = Defaulted \<and> list_all (\<lambda>(t, op). \<not> is_repay op) ops"
  have "\<exists>new. debt_status (apply_operations cfg ops s) (d_id d) = Some new \<and> new \<in> {Defaulted}"
    using assms p
    by (intro apply_operations_closed)
       (auto simp: may_move_def is_repay_def list_all_iff split: operation.splits)
  then show "debt_status (apply_operations cfg ops s) (d_id d) = Some Defaulted" by simp
qed


theorem status_moves_witness:
  "distinct (map d_id (debts store_defaulted))
   \<and> (debt_b0 40)\<lparr>status := Defaulted\<rparr> \<in> set (debts store_defaulted)
   \<and> distinct (map d_id (debts store_paid))
   \<and> (debt_b0 0)\<lparr>status := Paid, paid_at := Some 4000\<rparr> \<in> set (debts store_paid)
   \<and> (\<exists>new. debt_status (apply_operation cfg0 6000 (OpRepay ''0xb0'' 1 40) store_defaulted) 1
               = Some new
            \<and> may_move (OpRepay ''0xb0'' 1 40) Defaulted new)
   \<and> debt_status (apply_operation cfg0 6000 (OpRepay ''0xb0'' 1 40) store_defaulted) 1 = Some Paid
   \<and> debt_status
        (apply_operations cfg0
           [(6000, OpSweep), (7000, OpMarkDefaulted 1), (8000, OpTransfer ''0xb0'' 100 bank_ready)]
           store_defaulted) 1 = Some Defaulted
   \<and> debt_status
        (apply_operations cfg0
           [(6000, OpRepay ''0xb0'' 1 40), (7000, OpSweep), (8000, OpMarkDefaulted 1),
            (9000, OpTransfer ''0xb0'' 100 bank_ready)]
           store_paid) 1 = Some Paid"
proof -
  have h1: "distinct (map d_id (debts store_defaulted))"
    by (simp add: store_defaulted_def)
  have h2: "(debt_b0 40)\<lparr>status := Defaulted\<rparr> \<in> set (debts store_defaulted)"
    by (simp add: store_defaulted_def)
  have h3: "distinct (map d_id (debts store_paid))"
    by (simp add: store_paid_def)
  have h4: "(debt_b0 0)\<lparr>status := Paid, paid_at := Some 4000\<rparr> \<in> set (debts store_paid)"
    by (simp add: store_paid_def)
  have i: "d_id (debt_b0 40) = 1" "d_id (debt_b0 0) = 1" by (simp_all add: debt_b0_def)
  have e: "debt_status (apply_operation cfg0 6000 (OpRepay ''0xb0'' 1 40) store_defaulted) 1
             = Some Paid" by code_simp
  have r: "list_all (\<lambda>(t, op). \<not> is_repay op)
             [(6000, OpSweep), (7000, OpMarkDefaulted 1), (8000, OpTransfer ''0xb0'' 100 bank_ready)]"
    by (simp add: is_repay_def)
  show ?thesis
    using status_moves [OF h1 h2, of cfg0 6000 "OpRepay ''0xb0'' 1 40"
            "[(6000, OpSweep), (7000, OpMarkDefaulted 1), (8000, OpTransfer ''0xb0'' 100 bank_ready)]"]
          status_moves [OF h3 h4, of cfg0 6000 OpSweep
            "[(6000, OpRepay ''0xb0'' 1 40), (7000, OpSweep), (8000, OpMarkDefaulted 1),
              (9000, OpTransfer ''0xb0'' 100 bank_ready)]"]
          h1 h2 h3 h4 e r
    by (simp add: i)
qed

text \<open>
  Operations that overlap are another matter. The sweep reads the active rows that are
  past due and then, row by row, writes \<open>overdue\<close> by id, whatever the row's status has
  become in between. When the borrower repays the debt in full between the sweep's query
  and its loop, the loop finds the debt \<open>paid\<close> and leaves it \<open>overdue\<close>, with nothing owed and
  the penalty applied.
\<close>

theorem overlapping_sweep_overwrites_paid:
  "filter (\<lambda>d. status d = Active \<and> due_date d < 6000) (debts (store_garnish 50 40))
     = [debt_b0 40]
   \<and> debt_status (snd (repayDebt cfg0 (store_garnish 50 40) ''0xb0'' 1 40 5500)) 1 = Some Paid
   \<and> debt_status
        (snd (mark_overdue cfg0 (snd (repayDebt cfg0 (store_garnish 50 40) ''0xb0'' 1 40 5500))
                [debt_b0 40] 0)) 1 = Some Overdue
   \<and> debt_owed
        (snd (mark_overdue cfg0 (snd (repayDebt cfg0 (store_garnish 50 40) ''0xb0'' 1 40 5500))
                [debt_b0 40] 0)) 1 = Some 0
   \<and> select_score
        (snd (mark_overdue cfg0 (snd (repayDebt cfg0 (store_garnish 50 40) ''0xb0'' 1 40 5500))
                [debt_b0 40] 0)) ''0xb0'' = Some 625"
  by code_simp

section \<open>The promise of \<^verbatim>\<open>init()\<close>\<close>

lemmas client_defs = step_def update_conn_def startAuthFlow_def ws_open_def handleMessage_def
  ws_send_def resolve_def reject_def clearTimeout_def attemptReconnect_def disconnect_def init_def
  isReady_def

lemma settled_kept_refl [simp]: "settled_kept c c"
  by (simp add: settled_kept_def)

lemma settled_kept_trans: "settled_kept a b \<Longrightarrow> settled_kept b c \<Longrightarrow> settled_kept a c"
  unfolding settled_kept_def by (metis le_trans less_le_trans)

lemma settled_kept_conns: "conns c' = conns c \<Longrightarrow> settled_kept c c'"
  by (simp add: settled_kept_def)

lemma settled_kept_update_conn:
  assumes "\<And>k. init_promise k \<noteq> Pending \<Longrightarrow> init_promise (g k) = init_promise k"
  shows "settled_kept c (update_conn j g c)"
  using assms by (auto simp: settled_kept_def update_conn_def nth_list_update)

lemma settled_kept_resolve: "settled_kept c (resolve j c)"
  by (auto simp: settled_kept_def resolve_def update_conn_def Let_def nth_list_update)

lemma settled_kept_reject: "settled_kept c (reject j e c)"
  by (auto simp: settled_kept_def reject_def update_conn_def nth_list_update)

lemma settled_kept_clearTimeout: "settled_kept c (clearTimeout j c)"
  unfolding clearTimeout_def by (rule settled_kept_update_conn) simp

lemma settled_kept_init: "settled_kept c (init b c)"
  by (simp add: settled_kept_def init_def nth_append)

lemma settled_kept_attemptReconnect: "settled_kept c (attemptReconnect c)"
  by (simp add: settled_kept_def attemptReconnect_def Let_def)

lemma settled_kept_disconnect: "settled_kept c (disconnect c)"
  by (auto simp: settled_kept_def disconnect_def Let_def update_conn_def nth_list_update
        split: option.splits)

lemma handleMessage_conns [simp]: "conns (snd (handleMessage m c)) = conns c"
  by (cases m)
     (auto simp add: handleMessage_def ws_send_def Let_def
        split: option.splits ready_state.splits if_splits)

lemma startAuthFlow_conns: "startAuthFlow c = Inr c' \<Longrightarrow> conns c' = conns c"
  by (auto simp: startAuthFlow_def split: if_splits)

lemma settled_kept_step: "settled_kept c (step ev c)"
proof (cases ev)
  case (WsOpen i)
  let ?c1 = "update_conn i (\<lambda>k. k\<lparr>readyState := OPEN\<rparr>) c"
  have 1: "settled_kept c ?c1" by (rule settled_kept_update_conn) simp
  show ?thesis
  proof (cases "startAuthFlow ?c1")
    case (Inl err)
    have "settled_kept ?c1 (reject i err (clearTimeout i ?c1))"
      by (rule settled_kept_trans [OF settled_kept_clearTimeout settled_kept_reject])
    with 1 Inl WsOpen show ?thesis
      by (simp add: step_def Let_def) (rule settled_kept_trans)
  next
    case (Inr c2)
    then have "settled_kept ?c1 c2" by (intro settled_kept_conns startAuthFlow_conns)
    with 1 Inr WsOpen show ?thesis
      by (simp add: step_def Let_def) (rule settled_kept_trans)
  qed
next
  case (WsMessage i m)
  obtain ok c1 where h: "handleMessage m c = (ok, c1)" by (cases "handleMessage m c")
  have "conns c1 = conns c" using handleMessage_conns [of m c] h by simp
  then have 1: "settled_kept c c1" by (rule settled_kept_conns)
  have 2: "settled_kept c1 (resolve i (clearTimeout i c1))"
    by (rule settled_kept_trans [OF settled_kept_clearTimeout settled_kept_resolve])
  show ?thesis
    using WsMessage h 1 settled_kept_trans [OF 1 2]
    by (cases ok) (simp_all add: step_def Let_def)
next
  case (WsError i)
  then show ?thesis
    by (simp add: step_def)
       (rule settled_kept_trans [OF settled_kept_clearTimeout settled_kept_reject])
next
  case (WsClose i)
  let ?c1 = "update_conn i (\<lambda>k. k\<lparr>readyState := CLOSED\<rparr>) c"
  have 1: "settled_kept c ?c1" by (rule settled_kept_update_conn) simp
  have 2: "settled_kept ?c1 (?c1\<lparr>isAuthenticated := False\<rparr>)"
    by (rule settled_kept_conns) simp
  have 3: "settled_kept (?c1\<lparr>isAuthenticated := False\<rparr>)
             (attemptReconnect (?c1\<lparr>isAuthenticated := False\<rparr>))"
    by (rule settled_kept_attemptReconnect)
  show ?thesis
    using WsClose settled_kept_trans [OF settled_kept_trans [OF 1 2] 3]
    by (simp add: step_def)
next
  case (InitTimeout i)
  then show ?thesis
    using settled_kept_trans [OF settled_kept_clearTimeout settled_kept_reject]
    by (simp add: step_def)
next
  case (BackoffElapsed j)
  let ?c1 = "c\<lparr>backoff_timers := take j (backoff_timers c) @ drop (Suc j) (backoff_timers c)\<rparr>"
  have 1: "settled_kept c ?c1" by (rule settled_kept_conns) simp
  show ?thesis
    using BackoffElapsed settled_kept_trans [OF 1 settled_kept_init]
    by (simp add: step_def)
next
  case CallDisconnect
  then show ?thesis by (simp add: step_def settled_kept_disconnect)
qed

lemma settled_kept_run: "settled_kept c (run evs c)"
proof (induction evs arbitrary: c)
  case Nil
  show ?case by simp
next
  case (Cons ev evs)
  show ?case
    using settled_kept_trans [OF settled_kept_step Cons.IH] by simp
qed


lemma promise_update_conn:
  "i < length (conns c) \<Longrightarrow>
     init_promise (conns (update_conn j g c) ! i)
       = (if j = i then init_promise (g (conns c ! i)) else init_promise (conns c ! i))"
  by (simp add: update_conn_def nth_list_update)

lemma length_update_conn [simp]: "length (conns (update_conn j g c)) = length (conns c)"
  by (simp add: update_conn_def)

lemma length_clearTimeout [simp]: "length (conns (clearTimeout j c)) = length (conns c)"
  by (simp add: clearTimeout_def)

lemma promise_clearTimeout [simp]:
  "i < length (conns c) \<Longrightarrow> init_promise (conns (clearTimeout j c) ! i) = init_promise (conns c ! i)"
  by (simp add: clearTimeout_def promise_update_conn)

lemma promise_resolve:
  "i < length (conns c) \<Longrightarrow>
     init_promise (conns (resolve j c) ! i)
       = (if j = i \<and> init_promise (conns c ! i) = Pending then Resolved
          else init_promise (conns c ! i))"
  by (auto simp: resolve_def Let_def promise_update_conn)

lemma promise_reject:
  "i < length (conns c) \<Longrightarrow>
     init_promise (conns (reject j e c) ! i)
       = (if j = i \<and> init_promise (conns c ! i) = Pending then Rejected e
          else init_promise (conns c ! i))"
  by (auto simp: reject_def promise_update_conn)

lemma isAuthenticated_update_conn [simp]:
  "isAuthenticated (update_conn j g c) = isAuthenticated c"
  by (simp add: update_conn_def)

lemma isAuthenticated_resolve [simp]: "isAuthenticated (resolve j c) = isAuthenticated c"
  by (simp add: resolve_def Let_def)

lemma isAuthenticated_clearTimeout [simp]: "isAuthenticated (clearTimeout j c) = isAuthenticated c"
  by (simp add: clearTimeout_def)

lemma attemptReconnect_conns [simp]: "conns (attemptReconnect c) = conns c"
  by (simp add: attemptReconnect_def Let_def)

lemma step_message:
  "step (WsMessage j m) c =
     (if fst (handleMessage m c) \<and> \<not> isAuthenticated c \<and> isAuthenticated (snd (handleMessage m c))
      then resolve j (clearTimeout j (snd (handleMessage m c)))
      else snd (handleMessage m c))"
  by (cases "handleMessage m c") (auto simp: step_def Let_def split: bool.splits)

lemma resolved_only_by_message:
  assumes "i < length (conns c)" "init_promise (conns c ! i) = Pending"
      and "init_promise (conns (step ev c) ! i) = Resolved"
  shows "\<not> isAuthenticated c \<and> isAuthenticated (step ev c) \<and> (\<exists>m. ev = WsMessage i m)"
proof (cases ev)
  case (WsOpen j)
  let ?c1 = "update_conn j (\<lambda>k. k\<lparr>readyState := OPEN\<rparr>) c"
  have p1: "init_promise (conns ?c1 ! i) = Pending"
    using assms(1,2) by (simp add: promise_update_conn)
  show ?thesis
  proof (cases "startAuthFlow ?c1")
    case (Inl err)
    with WsOpen assms p1 show ?thesis
      by (simp add: step_def Let_def promise_reject split: if_splits)
  next
    case (Inr c2)
    then have "conns c2 = conns ?c1" by (rule startAuthFlow_conns)
    with WsOpen Inr assms p1 show ?thesis by (simp add: step_def Let_def)
  qed
next
  case (WsMessage j m)
  have len: "i < length (conns (snd (handleMessage m c)))" using assms(1) by simp
  show ?thesis
  proof (cases "fst (handleMessage m c) \<and> \<not> isAuthenticated c
                \<and> isAuthenticated (snd (handleMessage m c))")
    case True
    with WsMessage assms len show ?thesis
      by (simp add: step_message promise_resolve split: if_splits)
  next
    case False
    with WsMessage assms show ?thesis by (simp add: step_message)
  qed
next
  case (WsError j)
  with assms show ?thesis by (simp add: step_def promise_reject split: if_splits)
next
  case (WsClose j)
  with assms show ?thesis
    by (simp add: step_def update_conn_def nth_list_update split: if_splits)
next
  case (InitTimeout j)
  with assms show ?thesis by (simp add: step_def promise_reject split: if_splits)
next
  case (BackoffElapsed j)
  with assms show ?thesis by (simp add: step_def init_def nth_append split: if_splits)
next
  case CallDisconnect
  with assms show ?thesis
    by (auto simp: step_def disconnect_def Let_def promise_update_conn split: option.splits if_splits)
qed

text \<open>
  Claim C6 says that a call of \<^verbatim>\<open>init()\<close> on an authenticated session is a no-op that
  reports "already running". \<^verbatim>\<open>BankClient.init\<close> has no such guard: called on the client
  that is authenticated and ready, it opens a second socket, which becomes \<^verbatim>\<open>this.ws\<close>, with
  a pending promise of its own.
\<close>

theorem init_on_authenticated_client:
  "isAuthenticated bank_ready \<and> isReady bank_ready
   \<and> init False bank_ready \<noteq> bank_ready
   \<and> ws bank_ready = Some 0 \<and> ws (init False bank_ready) = Some 1
   \<and> map readyState (conns (init False bank_ready)) = [OPEN, CONNECTING]
   \<and> map init_promise (conns (init False bank_ready)) = [Resolved, Pending]"
  by (simp add: bank_ready_def init_def isReady_def ws_open_def)

text \<open>
  Claim C6 as amended. The guard is in \<^verbatim>\<open>POST /connect\<close>: for an address whose agent is ready
  (authenticated, socket open) the route answers "Agent already running" and neither
  touches the store nor creates a client nor calls \<^verbatim>\<open>init()\<close>. \<^verbatim>\<open>init()\<close> itself always
  opens a new socket with a 30000 ms timer and a pending promise. No sequence of events
  changes a settled promise. A pending promise becomes fulfilled only by a message on its
  own socket that takes \<^verbatim>\<open>isAuthenticated\<close> from false to true, and the verification message
  does fulfil it when \<^verbatim>\<open>this.ws\<close> is an open socket, so that the ledger query is sent. When
  \<^verbatim>\<open>this.ws\<close> is a socket that is still connecting (a later \<^verbatim>\<open>init()\<close> has replaced the one
  the message came on), the ledger query throws after \<^verbatim>\<open>isAuthenticated\<close> is set, and the
  promise stays pending. When the 30000 ms timer fires on a pending promise, it is
  rejected with "Connection timeout".
\<close>

theorem init_promise_settles:
  shows "(agents a = Some agent \<and> isReady agent \<longrightarrow>
            connect_start agents s a ensName = (AgentAlreadyRunning, s))
       \<and> ws (init b c) = Some (length (conns c))
       \<and> conns (init b c) = conns c @ [\<lparr>readyState = CONNECTING, timeout_armed = Some 30000,
                                          init_promise = Pending, awaited_by_reconnect = b\<rparr>]
       \<and> settled_kept c (run evs c)
       \<and> (i < length (conns c) \<and> init_promise (conns c ! i) = Pending
            \<and> init_promise (conns (step ev c) ! i) = Resolved
          \<longrightarrow> \<not> isAuthenticated c \<and> isAuthenticated (step ev c) \<and> (\<exists>m. ev = WsMessage i m))
       \<and> (i < length (conns c) \<and> init_promise (conns c ! i) = Pending
            \<and> \<not> isAuthenticated c \<and> ws_open c
          \<longrightarrow> init_promise (conns (step (WsMessage i AuthVerify) c) ! i) = Resolved
              \<and> isAuthenticated (step (WsMessage i AuthVerify) c)
              \<and> outbox (step (WsMessage i AuthVerify) c) = outbox c @ [GetLedgerBalances])
       \<and> (i < length (conns c) \<and> init_promise (conns c ! i) = Pending
            \<and> \<not> isAuthenticated c
            \<and> ws c = Some k \<and> k < length (conns c) \<and> readyState (conns c ! k) = CONNECTING
          \<longrightarrow> init_promise (conns (step (WsMessage i AuthVerify) c) ! i) = Pending
              \<and> isAuthenticated (step (WsMessage i AuthVerify) c)
              \<and> outbox (step (WsMessage i AuthVerify) c) = outbox c)
       \<and> (i < length (conns c) \<and> init_promise (conns c ! i) = Pending
            \<and> timeout_armed (conns c ! i) = Some 30000
          \<longrightarrow> init_promise (conns (step (InitTimeout i) c) ! i) = Rejected ConnectionTimeout)"
proof (intro conjI impI)
  assume "agents a = Some agent \<and> isReady agent"
  then show "connect_start agents s a ensName = (AgentAlreadyRunning, s)"
    by (simp add: connect_start_def)
next
  show "ws (init b c) = Some (length (conns c))" by (simp add: init_def)
next
  show "conns (init b c) = conns c @ [\<lparr>readyState = CONNECTING, timeout_armed = Some 30000,
                                          init_promise = Pending, awaited_by_reconnect = b\<rparr>]"
    by (simp add: init_def)
next
  show "settled_kept c (run evs c)" by (rule settled_kept_run)
next
  assume h: "i < length (conns c) \<and> init_promise (conns c ! i) = Pending
            \<and> init_promise (conns (step ev c) ! i) = Resolved"
  then have r: "\<not> isAuthenticated c \<and> isAuthenticated (step ev c) \<and> (\<exists>m. ev = WsMessage i m)"
    by (intro resolved_only_by_message) simp_all
  from r show "\<not> isAuthenticated c" by simp
  from r show "isAuthenticated (step ev c)" by simp
  from r show "\<exists>m. ev = WsMessage i m" by simp
next
  assume h: "i < length (conns c) \<and> init_promise (conns c ! i) = Pending
            \<and> \<not> isAuthenticated c \<and> ws_open c"
  then obtain j where j: "ws c = Some j" "j < length (conns c)" "readyState (conns c ! j) = OPEN"
    by (auto simp: ws_open_def split: option.splits)
  have hm: "handleMessage AuthVerify c
              = (True, c\<lparr>isAuthenticated := True, outbox := outbox c @ [GetLedgerBalances]\<rparr>)"
    using j by (simp add: handleMessage_def ws_send_def Let_def)
  show "init_promise (conns (step (WsMessage i AuthVerify) c) ! i) = Resolved"
    using h by (simp add: step_message hm promise_resolve)
  show "isAuthenticated (step (WsMessage i AuthVerify) c)"
    using h by (simp add: step_message hm)
  show "outbox (step (WsMessage i AuthVerify) c) = outbox c @ [GetLedgerBalances]"
    using h by (simp add: step_message hm resolve_def clearTimeout_def update_conn_def Let_def)
next
  assume h: "i < length (conns c) \<and> init_promise (conns c ! i) = Pending
            \<and> \<not> isAuthenticated c
            \<and> ws c = Some k \<and> k < length (conns c) \<and> readyState (conns c ! k) = CONNECTING"
  have hm: "handleMessage AuthVerify c = (False, c\<lparr>isAuthenticated := True\<rparr>)"
    using h by (simp add: handleMessage_def ws_send_def Let_def)
  show "init_promise (conns (step (WsMessage i AuthVerify) c) ! i) = Pending"
    using h by (simp add: step_message hm)
  show "isAuthenticated (step (WsMessage i AuthVerify) c)"
    using h by (simp add: step_message hm)
  show "outbox (step (WsMessage i AuthVerify) c) = outbox c"
    using h by (simp add: step_message hm)
next
  assume h: "i < length (conns c) \<and> init_promise (conns c ! i) = Pending
            \<and> timeout_armed (conns c ! i) = Some 30000"
  then show "init_promise (conns (step (InitTimeout i) c) ! i) = Rejected ConnectionTimeout"
    by (simp add: step_def promise_reject)
qed


theorem init_promise_settles_witness:
  "[''0xb0'' \<mapsto> bank_ready] ''0xb0'' = Some bank_ready \<and> isReady bank_ready
   \<and> connect_start [''0xb0'' \<mapsto> bank_ready] store_alice ''0xb0'' None
       = (AgentAlreadyRunning, store_alice)
   \<and> 0 < length (conns bank_connecting) \<and> init_promise (conns bank_connecting ! 0) = Pending
   \<and> \<not> isAuthenticated bank_connecting \<and> ws_open bank_connecting
   \<and> timeout_armed (conns bank_connecting ! 0) = Some 30000
   \<and> init_promise (conns (step (WsMessage 0 AuthVerify) bank_connecting) ! 0) = Resolved
   \<and> isAuthenticated (step (WsMessage 0 AuthVerify) bank_connecting)
   \<and> outbox (step (WsMessage 0 AuthVerify) bank_connecting)
       = [AuthRequest, AuthVerifyReply, GetLedgerBalances]
   \<and> ws (init False bank_connecting) = Some 1
   \<and> map readyState (conns (init False bank_connecting)) = [OPEN, CONNECTING]
   \<and> init_promise (conns (step (WsMessage 0 AuthVerify) (init False bank_connecting)) ! 0)
       = Pending
   \<and> isAuthenticated (step (WsMessage 0 AuthVerify) (init False bank_connecting))
   \<and> outbox (step (WsMessage 0 AuthVerify) (init False bank_connecting))
       = [AuthRequest, AuthVerifyReply]
   \<and> init_promise (conns (step (InitTimeout 0) bank_connecting) ! 0) = Rejected ConnectionTimeout
   \<and> settled_kept bank_connecting
         (run [InitTimeout 0, WsMessage 0 AuthVerify, WsError 0] bank_connecting)
   \<and> init_promise
         (conns (run [InitTimeout 0, WsMessage 0 AuthVerify, WsError 0] bank_connecting) ! 0)
       = Rejected ConnectionTimeout"
proof -
  have h1: "[''0xb0'' \<mapsto> bank_ready] ''0xb0'' = Some bank_ready \<and> isReady bank_ready"
    by (simp add: bank_ready_def isReady_def ws_open_def)
  have h2: "0 < length (conns bank_connecting) \<and> init_promise (conns bank_connecting ! 0) = Pending
            \<and> \<not> isAuthenticated bank_connecting \<and> ws_open bank_connecting
            \<and> timeout_armed (conns bank_connecting ! 0) = Some 30000"
    by (simp add: bank_connecting_def ws_open_def)
  have o: "outbox bank_connecting = [AuthRequest, AuthVerifyReply]"
    by (simp add: bank_connecting_def)
  have h3: "0 < length (conns (init False bank_connecting))
            \<and> init_promise (conns (init False bank_connecting) ! 0) = Pending
            \<and> \<not> isAuthenticated (init False bank_connecting)
            \<and> ws (init False bank_connecting) = Some 1
            \<and> 1 < length (conns (init False bank_connecting))
            \<and> readyState (conns (init False bank_connecting) ! 1) = CONNECTING
            \<and> map readyState (conns (init False bank_connecting)) = [OPEN, CONNECTING]
            \<and> outbox (init False bank_connecting) = [AuthRequest, AuthVerifyReply]"
    by (simp add: bank_connecting_def init_def)
  have r: "init_promise
         (conns (run [InitTimeout 0, WsMessage 0 AuthVerify, WsError 0] bank_connecting) ! 0)
       = Rejected ConnectionTimeout"
    by (simp add: client_defs bank_connecting_def Let_def)
  show ?thesis
    using init_promise_settles [where agents = "[''0xb0'' \<mapsto> bank_ready]" and a = "''0xb0''"
            and agent = bank_ready and s = store_alice and ensName = None and c = bank_connecting
            and i = 0 and ev = "WsMessage 0 AuthVerify"
            and evs = "[InitTimeout 0, WsMessage 0 AuthVerify, WsError 0]"]
          init_promise_settles [where c = "init False bank_connecting" and i = 0 and k = 1]
          h1 h2 h3 r o
    by simp
qed

section \<open>Reconnecting\<close>

text \<open>
  What holds of the reconnector: attempt \<open>n\<close> is scheduled after \<open>reconnectDelay * 2^(n - 1)\<close>
  (here \<open>n\<close> is the counter after its increment); at the maximum nothing is scheduled; the
  fulfilment of a reconnect's \<^verbatim>\<open>init()\<close> resets the counter; \<^verbatim>\<open>disconnect()\<close> sets the
  maximum to zero, after which a close event schedules nothing.
\<close>

theorem reconnect_backoff:
  "(reconnectAttempts c < maxReconnectAttempts c \<longrightarrow>
      attemptReconnect c
        = c\<lparr>reconnectAttempts := reconnectAttempts c + 1,
             backoff_timers := backoff_timers c
                @ [reconnectDelay c * 2 ^ (reconnectAttempts c + 1 - 1)]\<rparr>)
   \<and> (maxReconnectAttempts c \<le> reconnectAttempts c \<longrightarrow> attemptReconnect c = c)
   \<and> (i < length (conns c) \<and> init_promise (conns c ! i) = Pending
        \<and> awaited_by_reconnect (conns c ! i) \<longrightarrow> reconnectAttempts (resolve i c) = 0)
   \<and> maxReconnectAttempts (disconnect c) = 0
   \<and> backoff_timers (step (WsClose i) (disconnect c)) = backoff_timers c"
  by (auto simp: attemptReconnect_def Let_def resolve_def disconnect_def step_def update_conn_def
        split: option.splits)

theorem reconnect_backoff_witness:
  "reconnectAttempts bank_down < maxReconnectAttempts bank_down
   \<and> backoff_timers (attemptReconnect bank_down) = [3000, 6000]
   \<and> reconnectAttempts (attemptReconnect bank_down) = 2
   \<and> maxReconnectAttempts (disconnect bank_down) \<le> reconnectAttempts (disconnect bank_down)
   \<and> attemptReconnect (disconnect bank_down) = disconnect bank_down
   \<and> 1 < length (conns (init True bank_down))
   \<and> init_promise (conns (init True bank_down) ! 1) = Pending
   \<and> awaited_by_reconnect (conns (init True bank_down) ! 1)
   \<and> reconnectAttempts (init True bank_down) = 1
   \<and> reconnectAttempts (resolve 1 (init True bank_down)) = 0
   \<and> backoff_timers (step (WsClose 0) (disconnect bank_ready)) = []"
proof -
  have h1: "reconnectAttempts bank_down < maxReconnectAttempts bank_down"
    by (simp add: bank_down_def)
  have h2: "maxReconnectAttempts (disconnect bank_down) \<le> reconnectAttempts (disconnect bank_down)"
    by (simp add: bank_down_def disconnect_def Let_def update_conn_def)
  have h3: "1 < length (conns (init True bank_down))
            \<and> init_promise (conns (init True bank_down) ! 1) = Pending
            \<and> awaited_by_reconnect (conns (init True bank_down) ! 1)
            \<and> reconnectAttempts (init True bank_down) = 1"
    by (simp add: bank_down_def init_def)
  have v: "reconnectAttempts bank_down = 1" "backoff_timers bank_down = [3000]"
    "reconnectDelay bank_down = 3000" "backoff_timers bank_ready = []"
    by (simp_all add: bank_down_def bank_ready_def)
  show ?thesis
    using reconnect_backoff [of bank_down 0] reconnect_backoff [of "disconnect bank_down" 0]
      reconnect_backoff [of "init True bank_down" 1] reconnect_backoff [of bank_ready 0] h1 h2 h3
    by (simp add: v)
qed

text \<open>
  Claim C7 ends: "so no reconnect ever fires after an explicit disconnect". A reconnect
  that is already waiting out its delay is not suppressed: \<^verbatim>\<open>attemptReconnect\<close> checks the
  maximum before the delay and calls \<^verbatim>\<open>init()\<close> after it without looking again. The
  socket of a ready client closes (attempt 1 is scheduled after 3000 ms), \<^verbatim>\<open>disconnect()\<close>
  is called, the delay runs out: a new socket is opened, and, the handshake going
  through, the disconnected client is authenticated and ready again.
\<close>

theorem reconnect_after_disconnect:
  "backoff_timers (run [WsClose 0] bank_ready) = [3000]
   \<and> maxReconnectAttempts (run [WsClose 0, CallDisconnect] bank_ready) = 0
   \<and> run [WsClose 0, CallDisconnect, BackoffElapsed 0] bank_ready
       = \<lparr>conns = [\<lparr>readyState = CLOSED, timeout_armed = None, init_promise = Resolved,
                     awaited_by_reconnect = False\<rparr>,
                   \<lparr>readyState = CONNECTING, timeout_armed = Some 30000, init_promise = Pending,
                     awaited_by_reconnect = True\<rparr>],
           ws = Some 1, isAuthenticated = False, reconnectAttempts = 1,
           maxReconnectAttempts = 0, reconnectDelay = 3000, backoff_timers = [],
           outbox = [AuthRequest, AuthVerifyReply, GetLedgerBalances]\<rparr>
   \<and> isReady (run [WsClose 0, CallDisconnect, BackoffElapsed 0, WsOpen 1,
                     WsMessage 1 AuthChallenge, WsMessage 1 AuthVerify] bank_ready)"
  by (simp add: client_defs bank_ready_def Let_def)

section \<open>Borrow allocation\<close>

lemma foldl_credit:
  "foldl (\<lambda>sum v. sum + (limit_amount v - current_usage v)) z vs
     = z + (\<Sum>v\<leftarrow>vs. limit_amount v - current_usage v)"
  by (induction vs arbitrary: z) simp_all

lemma availableCredit_sum:
  "availableCredit vs = (\<Sum>v\<leftarrow>vs. limit_amount v - current_usage v)"
  by (simp add: availableCredit_def foldl_credit)

lemma greedy_draw_nonpos [simp]: "R \<le> 0 \<Longrightarrow> greedy_draw R vs = []"
  by (cases vs) simp_all

lemma greedy_draw_sum:
  "0 < R \<Longrightarrow> R \<le> (\<Sum>v\<leftarrow>vs. limit_amount v - current_usage v)
     \<Longrightarrow> (\<Sum>p\<leftarrow>greedy_draw R vs. snd p) = R"
proof (induction vs arbitrary: R)
  case Nil
  then show ?case by simp
next
  case (Cons v vs)
  let ?a = "limit_amount v - current_usage v"
  show ?case
  proof (cases "?a \<le> 0")
    case True
    with Cons.prems have "R \<le> (\<Sum>v\<leftarrow>vs. limit_amount v - current_usage v)" by simp
    with Cons.IH [OF Cons.prems(1)] True Cons.prems(1) show ?thesis by simp
  next
    case False
    show ?thesis
    proof (cases "R \<le> ?a")
      case True
      with False Cons.prems(1) show ?thesis by simp
    next
      case r: False
      then have "0 < R - ?a" "R - ?a \<le> (\<Sum>v\<leftarrow>vs. limit_amount v - current_usage v)"
        using Cons.prems by simp_all
      from Cons.IH [OF this] False r Cons.prems(1) show ?thesis by simp
    qed
  qed
qed

lemma greedy_draw_ids: "fst ` set (greedy_draw R vs) \<subseteq> v_id ` set vs"
  by (induction vs arbitrary: R) auto

lemma drawn_Nil [simp]: "drawn [] i = 0"
  by (simp add: drawn_def)

lemma drawn_Cons [simp]: "drawn ((j, x) # ds) i = (if i = j then x else drawn ds i)"
  by (simp add: drawn_def)

lemma drawn_notin: "i \<notin> fst ` set ds \<Longrightarrow> drawn ds i = 0"
  by (simp add: drawn_def map_of_eq_None_iff [THEN iffD2])

lemma borrower_vouches_set:
  "set (borrower_vouches s b) \<subseteq> set (vouches s)"
  by (auto simp: borrower_vouches_def)

lemma borrower_vouches_distinct:
  "distinct (map v_id (vouches s)) \<Longrightarrow> distinct (map v_id (borrower_vouches s b))"
  by (auto simp: borrower_vouches_def distinct_map inj_on_def)

lemma borrower_vouches_sorted:
  "sorted (map (\<lambda>v. - limit_amount v) (borrower_vouches s b))"
  by (simp add: borrower_vouches_def)


lemma usage_compose:
  assumes "distinct (map v_id xs)" "vouch \<in> set xs" "v_id vouch \<notin> fst ` set g"
  shows "map (\<lambda>v. v\<lparr>current_usage := current_usage v + drawn g (v_id v)\<rparr>)
           (map (\<lambda>v. if v_id v = v_id vouch
                      then v\<lparr>current_usage := current_usage vouch + x\<rparr> else v) xs)
       = map (\<lambda>v. v\<lparr>current_usage := current_usage v + drawn ((v_id vouch, x) # g) (v_id v)\<rparr>) xs"
proof -
  have "(if v_id v = v_id vouch then v\<lparr>current_usage := current_usage vouch + x\<rparr> else v)
           \<lparr>current_usage :=
              current_usage (if v_id v = v_id vouch
                             then v\<lparr>current_usage := current_usage vouch + x\<rparr> else v)
              + drawn g (v_id (if v_id v = v_id vouch
                               then v\<lparr>current_usage := current_usage vouch + x\<rparr> else v))\<rparr>
        = v\<lparr>current_usage := current_usage v + drawn ((v_id vouch, x) # g) (v_id v)\<rparr>"
    if "v \<in> set xs" for v
  proof (cases "v_id v = v_id vouch")
    case True
    with that assms(1,2) have "v = vouch" by (metis distinct_map inj_on_def)
    with assms(3) show ?thesis by (simp add: drawn_notin)
  next
    case False
    then show ?thesis by simp
  qed
  then show ?thesis by (simp add: comp_def)
qed

lemma allocate_spec:
  assumes "distinct (map v_id (vouches s))" "set vs \<subseteq> set (vouches s)" "distinct (map v_id vs)"
          "valid_time_value due"
  shows "\<exists>ds. allocate b due rd s vs R acc =
              (Some (acc @ ds),
               s\<lparr>debts := debts s @ ds, debt_seq := debt_seq s + length ds,
                 vouches := map (\<lambda>v. v\<lparr>current_usage :=
                                          current_usage v + drawn (greedy_draw R vs) (v_id v)\<rparr>)
                              (vouches s)\<rparr>)
            \<and> map (\<lambda>d. (vouch_id d, original_amount d)) ds
                = map (\<lambda>(i, x). (Some i, x)) (greedy_draw R vs)
            \<and> list_all (\<lambda>d. status d = Active \<and> amount_owed d = original_amount d
                             \<and> borrower_address d = b \<and> due_date d = due) ds
            \<and> map d_id ds = [debt_seq s ..< debt_seq s + length ds]"
  using assms
proof (induction vs arbitrary: s R acc)
  case Nil
  show ?case by (rule exI [of _ "[]"]) simp
next
  case (Cons vouch vs)
  let ?a = "limit_amount vouch - current_usage vouch"
  have rest: "set vs \<subseteq> set (vouches s)" "distinct (map v_id vs)"
    using Cons.prems by simp_all
  show ?case
  proof (cases "R \<le> 0")
    case True
    then show ?thesis by (intro exI [of _ "[]"]) simp
  next
    case pos: False
    show ?thesis
    proof (cases "?a \<le> 0")
      case True
      from Cons.IH [OF Cons.prems(1) rest Cons.prems(4), of R acc] True pos show ?thesis by simp
    next
      case False
      define x where "x = min R ?a"
      define debt where "debt = \<lparr>d_id = debt_seq s, borrower_address = b,
                           lender_address = voucher_address vouch, vouch_id = Some (v_id vouch),
                           original_amount = x, amount_owed = x,
                           due_date = due, repayment_days = rd,
                           status = Active, paid_at = None\<rparr>"
      define s2 where "s2 = update_vouch (v_id vouch)
                          (\<lambda>v. v\<lparr>current_usage := current_usage vouch + x\<rparr>)
                          (s\<lparr>debts := debts s @ [debt], debt_seq := Suc (debt_seq s)\<rparr>)"
      have step: "allocate b due rd s (vouch # vs) R acc = allocate b due rd s2 vs (R - x) (acc @ [debt])"
        using pos False Cons.prems(4) by (simp add: Let_def x_def debt_def s2_def)
      have g: "greedy_draw R (vouch # vs) = (v_id vouch, x) # greedy_draw (R - x) vs"
        using pos False by (simp add: x_def)
      have v2: "vouches s2 = map (\<lambda>v. if v_id v = v_id vouch
                      then v\<lparr>current_usage := current_usage vouch + x\<rparr> else v) (vouches s)"
        by (simp add: s2_def update_vouch_def)
      have d2: "distinct (map v_id (vouches s2))"
      proof -
        have "map v_id (vouches s2) = map v_id (vouches s)"
          by (simp add: v2 comp_def if_distrib cong: if_cong)
        with Cons.prems(1) show ?thesis by simp
      qed
      have notin: "v_id vouch \<notin> v_id ` set vs" using Cons.prems(3) by simp
      have sub2: "set vs \<subseteq> set (vouches s2)"
      proof
        fix v assume v: "v \<in> set vs"
        with notin have "v_id v \<noteq> v_id vouch" by (metis imageI)
        moreover from v rest(1) have "v \<in> set (vouches s)" by auto
        ultimately show "v \<in> set (vouches s2)" by (force simp: v2)
      qed
      obtain ds where ds:
        "allocate b due rd s2 vs (R - x) (acc @ [debt]) =
              (Some ((acc @ [debt]) @ ds),
               s2\<lparr>debts := debts s2 @ ds, debt_seq := debt_seq s2 + length ds,
                 vouches := map (\<lambda>v. v\<lparr>current_usage :=
                                          current_usage v + drawn (greedy_draw (R - x) vs) (v_id v)\<rparr>)
                              (vouches s2)\<rparr>)"
        "map (\<lambda>d. (vouch_id d, original_amount d)) ds
                = map (\<lambda>(i, x). (Some i, x)) (greedy_draw (R - x) vs)"
        "list_all (\<lambda>d. status d = Active \<and> amount_owed d = original_amount d
                             \<and> borrower_address d = b \<and> due_date d = due) ds"
        "map d_id ds = [debt_seq s2 ..< debt_seq s2 + length ds]"
        using Cons.IH [OF d2 sub2 rest(2) Cons.prems(4), of "R - x" "acc @ [debt]"] by blast
      have mem: "vouch \<in> set (vouches s)" using Cons.prems(2) by simp
      have ni: "v_id vouch \<notin> fst ` set (greedy_draw (R - x) vs)"
        using notin greedy_draw_ids [of "R - x" vs] by blast
      have vs': "map (\<lambda>v. v\<lparr>current_usage :=
                      current_usage v + drawn (greedy_draw (R - x) vs) (v_id v)\<rparr>) (vouches s2)
          = map (\<lambda>v. v\<lparr>current_usage :=
                      current_usage v + drawn (greedy_draw R (vouch # vs)) (v_id v)\<rparr>) (vouches s)"
        unfolding v2 g by (rule usage_compose [OF Cons.prems(1) mem ni])
      have seq2: "debt_seq s2 = Suc (debt_seq s)" "debts s2 = debts s @ [debt]"
        by (simp_all add: s2_def update_vouch_def)
      have s2eq: "s2\<lparr>debts := debts s2 @ ds, debt_seq := debt_seq s2 + length ds,
                 vouches := map (\<lambda>v. v\<lparr>current_usage :=
                                          current_usage v + drawn (greedy_draw (R - x) vs) (v_id v)\<rparr>)
                              (vouches s2)\<rparr>
           = s\<lparr>debts := debts s @ (debt # ds), debt_seq := debt_seq s + length (debt # ds),
                 vouches := map (\<lambda>v. v\<lparr>current_usage :=
                                          current_usage v + drawn (greedy_draw R (vouch # vs)) (v_id v)\<rparr>)
                              (vouches s)\<rparr>"
        unfolding vs' seq2 by (simp add: s2_def update_vouch_def)
      have "[debt_seq s ..< debt_seq s + Suc (length ds)]
              = debt_seq s # [Suc (debt_seq s) ..< Suc (debt_seq s) + length ds]"
        by (simp add: upt_conv_Cons del: upt_Suc)
      moreover have "d_id debt = debt_seq s" by (simp add: debt_def)
      ultimately have ids: "map d_id (debt # ds) = [debt_seq s ..< debt_seq s + length (debt # ds)]"
        using ds(4) unfolding seq2 by (simp del: upt_Suc)
      show ?thesis
      proof (intro exI [of _ "debt # ds"] conjI)
        show "allocate b due rd s (vouch # vs) R acc =
              (Some (acc @ debt # ds),
               s\<lparr>debts := debts s @ debt # ds, debt_seq := debt_seq s + length (debt # ds),
                 vouches := map (\<lambda>v. v\<lparr>current_usage :=
                             current_usage v + drawn (greedy_draw R (vouch # vs)) (v_id v)\<rparr>)
                              (vouches s)\<rparr>)"
          unfolding step ds(1) s2eq by simp
        show "map (\<lambda>d. (vouch_id d, original_amount d)) (debt # ds)
                = map (\<lambda>(i, x). (Some i, x)) (greedy_draw R (vouch # vs))"
          unfolding g using ds(2) by (simp add: debt_def)
        show "list_all (\<lambda>d. status d = Active \<and> amount_owed d = original_amount d
                             \<and> borrower_address d = b \<and> due_date d = due) (debt # ds)"
          using ds(3) by (simp add: debt_def)
        show "map d_id (debt # ds) = [debt_seq s ..< debt_seq s + length (debt # ds)]"
          by (rule ids)
      qed
    qed
  qed
qed


lemma allocate_invalid_date:
  assumes "\<not> valid_time_value due" "0 < R"
          "R \<le> (\<Sum>v\<leftarrow>vs. limit_amount v - current_usage v)"
  shows "allocate b due rd s vs R acc = (None, s)"
  using assms(2,3)
proof (induction vs)
  case Nil
  then show ?case by simp
next
  case (Cons v vs)
  show ?case
  proof (cases "limit_amount v - current_usage v \<le> 0")
    case True
    with Cons.prems have "R \<le> (\<Sum>v\<leftarrow>vs. limit_amount v - current_usage v)" by simp
    with Cons.IH Cons.prems(1) True show ?thesis by simp
  next
    case False
    with Cons.prems(1) assms(1) show ?thesis by simp
  qed
qed


text \<open>
  Claim C2 says that a request above the available credit returns an "insufficient
  credit" error, and that a request within it creates debts that sum to the principal. A
  borrower without an active vouch has an available credit of 0, and a request of 5 is
  answered "No vouches available"; a request of -5 is within the available credit and is
  answered "Failed to create debt", with no debt created.
\<close>

theorem borrow_without_vouches:
  "availableCredit (borrower_vouches store_alice (toLowerCase ''0xa1'')) = 0
   \<and> borrow store_alice ''0xa1'' 5 14 0 = (Inl NoVouchesAvailable, store_alice)
   \<and> availableCredit (borrower_vouches store_two_vouches (toLowerCase ''0xb0'')) = 2500
   \<and> borrow store_two_vouches ''0xb0'' (- 5) 14 0 = (Inl FailedToCreateDebt, store_two_vouches)"
proof -
  have a: "availableCredit (borrower_vouches store_alice (toLowerCase ''0xa1'')) = 0" by code_simp
  have b: "borrow store_alice ''0xa1'' 5 14 0 = (Inl NoVouchesAvailable, store_alice)" by code_simp
  have c: "availableCredit (borrower_vouches store_two_vouches (toLowerCase ''0xb0'')) = 2500"
    by code_simp
  have d: "borrow store_two_vouches ''0xb0'' (- 5) 14 0
             = (Inl FailedToCreateDebt, store_two_vouches)" by code_simp
  show ?thesis using a b c d by simp
qed

text \<open>
  Claim C2 as amended, for whole amounts, a repayment period of whole days and operations
  that do not overlap. Let \<open>vs\<close> be the borrower's active vouches, largest limit first. For
  a positive principal \<open>R\<close> of at most the sum of \<open>limit_amount - current_usage\<close> over \<open>vs\<close> and
  a due date from 1970 to the end of the year 9999, \<^verbatim>\<open>borrow\<close> succeeds with debts whose
  original amounts sum to exactly \<open>R\<close>; they are the greedy draws over \<open>vs\<close> in that order,
  one active debt per vouch touched, appended to the debts table, and every vouch's usage
  has grown by the amount drawn from it (by nothing for the others). For such an \<open>R\<close> and a
  due date beyond the range of \<^verbatim>\<open>Date\<close> (8.64e15 ms either way), \<^verbatim>\<open>borrow\<close> throws a
  \<^verbatim>\<open>RangeError\<close> and the store is unchanged. For \<open>R\<close> above that sum the store is unchanged,
  so no debt is created and no usage changes; the error is "Insufficient credit" when
  the borrower has an active vouch and "No vouches available" when there is none. The
  premises are the primary key of the vouches table, the ranges of its columns, and
  limits and usages of \<open>vs\<close> that add up to at most \<open>2^53\<close>, so that the sums the code forms
  in doubles are the exact ones.
\<close>

theorem borrow_allocation:
  assumes "distinct (map v_id (vouches s))"
      and "list_all vouch_row_valid (vouches s)"
      and "exact_in_doubles (borrower_vouches s (toLowerCase a))"
  shows "(let vs = borrower_vouches s (toLowerCase a);
              due = now + days * 24 * 60 * 60 * 1000 in
          (0 < R \<and> R \<le> availableCredit vs \<and> 0 \<le> due \<and> due \<le> 253402300799999 \<longrightarrow>
             (\<exists>ds s'. borrow s a R days now = (Inr ds, s')
                \<and> sum_list (map original_amount ds) = R
                \<and> map (\<lambda>d. (vouch_id d, original_amount d)) ds
                    = map (\<lambda>(i, x). (Some i, x)) (greedy_draw R vs)
                \<and> list_all (\<lambda>d. status d = Active \<and> amount_owed d = original_amount d
                                 \<and> borrower_address d = toLowerCase a \<and> due_date d = due) ds
                \<and> debts s' = debts s @ ds
                \<and> vouches s' = map (\<lambda>v. v\<lparr>current_usage :=
                                     current_usage v + drawn (greedy_draw R vs) (v_id v)\<rparr>)
                                  (vouches s)))
        \<and> (0 < R \<and> R \<le> availableCredit vs \<and> 8640000000000000 < \<bar>due\<bar> \<longrightarrow>
             borrow s a R days now = (Inl InvalidTimeValue, s))
        \<and> (availableCredit vs < R \<longrightarrow>
             borrow s a R days now
               = (Inl (if vs = [] then NoVouchesAvailable
                       else InsufficientCredit (availableCredit vs) R), s))
        \<and> sorted (map (\<lambda>v. - limit_amount v) vs)
        \<and> availableCredit vs = (\<Sum>v\<leftarrow>vs. limit_amount v - current_usage v))"
proof -
  define vs where "vs = borrower_vouches s (toLowerCase a)"
  define due where "due = now + days * 24 * 60 * 60 * 1000"
  have part1: "\<exists>ds s'. borrow s a R days now = (Inr ds, s')
                \<and> sum_list (map original_amount ds) = R
                \<and> map (\<lambda>d. (vouch_id d, original_amount d)) ds
                    = map (\<lambda>(i, x). (Some i, x)) (greedy_draw R vs)
                \<and> list_all (\<lambda>d. status d = Active \<and> amount_owed d = original_amount d
                                 \<and> borrower_address d = toLowerCase a \<and> due_date d = due) ds
                \<and> debts s' = debts s @ ds
                \<and> vouches s' = map (\<lambda>v. v\<lparr>current_usage :=
                                     current_usage v + drawn (greedy_draw R vs) (v_id v)\<rparr>)
                                  (vouches s)"
    if R: "0 < R" "R \<le> availableCredit vs" and d: "0 \<le> due" "due \<le> 253402300799999"
  proof -
    have ne: "vs \<noteq> []" using R by (auto simp: availableCredit_sum)
    have valid: "valid_time_value due" using d by (simp add: valid_time_value_def)
    obtain ds where ds:
      "allocate (toLowerCase a) due (max 1 days) s vs R [] =
              (Some ([] @ ds),
               s\<lparr>debts := debts s @ ds, debt_seq := debt_seq s + length ds,
                 vouches := map (\<lambda>v. v\<lparr>current_usage :=
                                          current_usage v + drawn (greedy_draw R vs) (v_id v)\<rparr>)
                              (vouches s)\<rparr>)"
      "map (\<lambda>d. (vouch_id d, original_amount d)) ds
                = map (\<lambda>(i, x). (Some i, x)) (greedy_draw R vs)"
      "list_all (\<lambda>d. status d = Active \<and> amount_owed d = original_amount d
                  \<and> borrower_address d = toLowerCase a \<and> due_date d = due) ds"
      using allocate_spec [OF assms(1) borrower_vouches_set [of s "toLowerCase a"]
          borrower_vouches_distinct [OF assms(1), of "toLowerCase a"] valid,
          where b = "toLowerCase a" and rd = "max 1 days" and R = R and acc = "[]"]
      unfolding vs_def by blast
    have "map original_amount ds = map snd (map (\<lambda>d. (vouch_id d, original_amount d)) ds)"
      by simp
    also have "\<dots> = map snd (greedy_draw R vs)"
      unfolding ds(2) by (simp add: comp_def case_prod_unfold)
    finally have sum: "sum_list (map original_amount ds) = R"
      using greedy_draw_sum [of R vs] R by (simp add: availableCredit_sum)
    have dne: "ds \<noteq> []" using sum R(1) by auto
    have b: "borrow s a R days now =
               (Inr ds, s\<lparr>debts := debts s @ ds, debt_seq := debt_seq s + length ds,
                 vouches := map (\<lambda>v. v\<lparr>current_usage :=
                                          current_usage v + drawn (greedy_draw R vs) (v_id v)\<rparr>)
                              (vouches s)\<rparr>)"
      using ne R(2) ds(1) dne
      unfolding borrow_def Let_def vs_def [symmetric] due_def [symmetric] by simp
    show ?thesis using b sum ds(2,3) by simp
  qed
  have part_date: "borrow s a R days now = (Inl InvalidTimeValue, s)"
    if R: "0 < R" "R \<le> availableCredit vs" and d: "8640000000000000 < \<bar>due\<bar>"
  proof -
    have ne: "vs \<noteq> []" using R by (auto simp: availableCredit_sum)
    have invalid: "\<not> valid_time_value due" using d by (simp add: valid_time_value_def)
    have "allocate (toLowerCase a) due (max 1 days) s vs R [] = (None, s)"
      using invalid R by (intro allocate_invalid_date) (simp_all add: availableCredit_sum)
    then show ?thesis
      using ne R(2)
      unfolding borrow_def Let_def vs_def [symmetric] due_def [symmetric] by simp
  qed
  have part2: "borrow s a R days now
               = (Inl (if vs = [] then NoVouchesAvailable
                       else InsufficientCredit (availableCredit vs) R), s)"
    if "availableCredit vs < R"
    using that by (simp add: borrow_def Let_def vs_def [symmetric])
  have part3: "sorted (map (\<lambda>v. - limit_amount v) vs)"
    unfolding vs_def by (rule borrower_vouches_sorted)
  show ?thesis
    unfolding Let_def vs_def [symmetric] due_def [symmetric]
    using part1 part_date part2 part3 availableCredit_sum [of vs] by blast
qed

theorem borrow_allocation_witness:
  "distinct (map v_id (vouches store_two_vouches))
   \<and> list_all vouch_row_valid (vouches store_two_vouches)
   \<and> exact_in_doubles (borrower_vouches store_two_vouches (toLowerCase ''0xB0''))
   \<and> availableCredit (borrower_vouches store_two_vouches (toLowerCase ''0xB0'')) = 2500
   \<and> greedy_draw 2000 (borrower_vouches store_two_vouches (toLowerCase ''0xB0''))
       = [(2, 1500), (1, 500)]
   \<and> (\<exists>ds s'. borrow store_two_vouches ''0xB0'' 2000 14 0 = (Inr ds, s')
          \<and> sum_list (map original_amount ds) = 2000
          \<and> map (\<lambda>d. (vouch_id d, original_amount d)) ds = [(Some 2, 1500), (Some 1, 500)]
          \<and> map due_date ds = [1209600000, 1209600000]
          \<and> debts s' = ds
          \<and> map current_usage (vouches s') = [500, 1500])
   \<and> borrow store_two_vouches ''0xB0'' 2000 1000000000 0
       = (Inl InvalidTimeValue, store_two_vouches)
   \<and> borrow store_two_vouches ''0xB0'' 3000 14 0
       = (Inl (InsufficientCredit 2500 3000), store_two_vouches)"
proof -
  have h: "distinct (map v_id (vouches store_two_vouches))"
    by (simp add: store_two_vouches_def)
  have h2: "list_all vouch_row_valid (vouches store_two_vouches)"
    by (simp add: store_two_vouches_def vouch_row_valid_def fits_decimal_18_6_def)
  have h3: "exact_in_doubles (borrower_vouches store_two_vouches (toLowerCase ''0xB0''))"
    by code_simp
  have av: "availableCredit (borrower_vouches store_two_vouches (toLowerCase ''0xB0'')) = 2500"
    by code_simp
  have g: "greedy_draw 2000 (borrower_vouches store_two_vouches (toLowerCase ''0xB0''))
       = [(2, 1500), (1, 500)]" by code_simp
  have ne: "borrower_vouches store_two_vouches (toLowerCase ''0xB0'') \<noteq> []" by code_simp
  have d: "debts store_two_vouches = []" by (simp add: store_two_vouches_def)
  have u: "map (\<lambda>v. current_usage v + drawn [(2, 1500), (1, 500)] (v_id v))
             (vouches store_two_vouches) = [500, 1500]"
    by (simp add: store_two_vouches_def)
  note t = borrow_allocation [OF h h2 h3, unfolded Let_def av]
  obtain ds s' where b: "borrow store_two_vouches ''0xB0'' 2000 14 0 = (Inr ds, s')"
      "sum_list (map original_amount ds) = 2000"
      "map (\<lambda>d. (vouch_id d, original_amount d)) ds = [(Some 2, 1500), (Some 1, 500)]"
      "list_all (\<lambda>d. status d = Active \<and> amount_owed d = original_amount d
                  \<and> borrower_address d = toLowerCase ''0xB0'' \<and> due_date d = 1209600000) ds"
      "debts s' = debts store_two_vouches @ ds"
      "vouches s' = map (\<lambda>v. v\<lparr>current_usage :=
                           current_usage v + drawn [(2, 1500), (1, 500)] (v_id v)\<rparr>)
                        (vouches store_two_vouches)"
    using t [where R = 2000 and days = 14 and now = 0, unfolded g] by auto
  have "map current_usage (vouches s') = [500, 1500]"
    unfolding b(6) using u by (simp add: comp_def)
  moreover have "map due_date ds = [1209600000, 1209600000]"
  proof -
    have "length ds = 2" using arg_cong [OF b(3), of length] by simp
    then obtain x y where "ds = [x, y]"
      by (metis (no_types) One_nat_def Suc_1 length_0_conv length_Suc_conv)
    with b(4) show ?thesis by simp
  qed
  ultimately have 1: "\<exists>ds s'. borrow store_two_vouches ''0xB0'' 2000 14 0 = (Inr ds, s')
          \<and> sum_list (map original_amount ds) = 2000
          \<and> map (\<lambda>d. (vouch_id d, original_amount d)) ds = [(Some 2, 1500), (Some 1, 500)]
          \<and> map due_date ds = [1209600000, 1209600000]
          \<and> debts s' = ds
          \<and> map current_usage (vouches s') = [500, 1500]"
    using b d by simp
  have 2: "borrow store_two_vouches ''0xB0'' 3000 14 0
       = (Inl (InsufficientCredit 2500 3000), store_two_vouches)"
    using t [where R = 3000 and days = 14 and now = 0] ne by simp
  have 3: "borrow store_two_vouches ''0xB0'' 2000 1000000000 0
       = (Inl InvalidTimeValue, store_two_vouches)"
    using t [where R = 2000 and days = 1000000000 and now = 0] by simp
  show ?thesis using h h2 h3 av g 1 2 3 by simp
qed

section \<open>Borrowing and repaying in full\<close>

lemma update_user_vouches [simp]: "vouches (update_user a f s) = vouches s"
  by (simp add: update_user_def)

lemma stripENS_vouches [simp]: "vouches (stripENS cfg s a) = vouches s"
  by (simp add: stripENS_def Let_def split: option.splits)

lemma updateCreditScore_vouches [simp]: "vouches (snd (updateCreditScore cfg s a c r)) = vouches s"
  by (simp add: updateCreditScore_def Let_def split: option.splits)

lemma update_debt_vouches [simp]: "vouches (update_debt i f s) = vouches s"
  by (simp add: update_debt_def)


























end
